theory Spec2Isabelle
  imports Main "HOL-Library.Word"
begin

unbundle bit_operations_syntax

section \<open>Data model of oled.c\<close>

type_synonym u8 = "8 word"
type_synonym u16 = "16 word"
type_synonym u32 = "32 word"

text \<open>
  Byte memory. Every array the driver touches is an object of its own: the four static
  command arrays of oled.c and the buffers owned by the caller. A byte pointer is an
  object together with an offset; the null pointer is offset 0 of the object
  \<open>ABSOLUTE\<close>, so that pointer arithmetic and dereferencing are total, as they are on
  the AVR. An object is not cut off at its declared length: what lies behind it is
  whatever the memory holds there.
\<close>

datatype region =
    ABSOLUTE
  | I2C_CMD_INIT
  | I2C_CMD_SETPAGE
  | I2C_CMD_SETBRIGHTNESS
  | I2C_CMD_DATAPREFIX
  | CALLER nat

datatype ptr = Ptr region nat

definition NULL :: ptr where
  "NULL = Ptr ABSOLUTE 0"

fun ptr_add :: "ptr \<Rightarrow> nat \<Rightarrow> ptr" where
  "ptr_add (Ptr r i) n = Ptr r (i + n)"

type_synonym memory = "region \<Rightarrow> nat \<Rightarrow> u8"

fun load :: "memory \<Rightarrow> ptr \<Rightarrow> u8" where
  "load m (Ptr r i) = m r i"

fun store :: "memory \<Rightarrow> ptr \<Rightarrow> u8 \<Rightarrow> memory" where
  "store m (Ptr r i) v = m(r := (m r)(i := v))"

text \<open>The initialisers of the static arrays \<open>_i2c_cmd_init\<close>, \<open>_i2c_cmd_setpage\<close>,
  \<open>_i2c_cmd_setbrightness\<close> and \<open>_i2c_cmd_dataprefix\<close>.\<close>

definition i2c_cmd_init :: "u8 list" where
  "i2c_cmd_init = [0x80, 0x8D, 0x80, 0x14, 0x80, 0xAF, 0x80, 0x81, 0x80, 0xFF, 0x80, 0xA7]"

definition i2c_cmd_setpage :: "u8 list" where
  "i2c_cmd_setpage = [0x80, 0x00, 0x80, 0x10, 0x80, 0xB0]"

definition i2c_cmd_setbrightness :: "u8 list" where
  "i2c_cmd_setbrightness = [0x80, 0x81, 0x80, 0xFF]"

definition i2c_cmd_dataprefix :: "u8 list" where
  "i2c_cmd_dataprefix = [0x40]"

fun nth_or_zero :: "u8 list \<Rightarrow> nat \<Rightarrow> u8" where
  "nth_or_zero [] i = 0"
| "nth_or_zero (x # xs) 0 = x"
| "nth_or_zero (x # xs) (Suc i) = nth_or_zero xs i"

text \<open>Memory at program start: the static arrays hold their initialisers.\<close>

definition boot_memory :: memory where
  "boot_memory r i =
     (case r of
        I2C_CMD_INIT \<Rightarrow> nth_or_zero i2c_cmd_init i
      | I2C_CMD_SETPAGE \<Rightarrow> nth_or_zero i2c_cmd_setpage i
      | I2C_CMD_SETBRIGHTNESS \<Rightarrow> nth_or_zero i2c_cmd_setbrightness i
      | I2C_CMD_DATAPREFIX \<Rightarrow> nth_or_zero i2c_cmd_dataprefix i
      | _ \<Rightarrow> 0)"

text \<open>
  Modelled from the spec: the struct \<open>OLED\<close> is declared in oled.h, which is not among
  the sources. The fields are the ones oled.c reads and writes; all are taken to be
  \<open>uint8_t\<close>, the type of the values oled.c assigns to them. The lock is free when
  \<open>busy_lock\<close> is non-zero (\<open>Initially: 1 - unlocked\<close>).
\<close>

record OLED =
  width :: u8
  height :: u8
  frame_buffer :: ptr
  busy_lock :: u8
  i2c_addr :: u8
  cur_page :: u8
  num_pages :: u8

datatype OLED_err = OLED_EOK | OLED_EBUSY | OLED_EBOUNDS | OLED_EPARAMS

text \<open>States used in the ISR FSM.\<close>

datatype I2C_State_e =
    I2C_STATE_IDLE
  | I2C_STATE_STOP
  | I2C_STATE_SLAVEADDR
  | I2C_STATE_WRITEPREFIX
  | I2C_STATE_WRITEBYTE

text \<open>
  The completion callback is a function pointer: null, or one of the four callbacks
  of oled.c. Its \<open>void *\<close> argument is null or the address of the display object.
\<close>

datatype callback =
    CBK_NULL
  | OLED_cbk_empty
  | OLED_cbk_unlock
  | OLED_cbk_writepage
  | OLED_cbk_setwritepage

datatype cbk_arg = ARG_NULL | ARG_OLED

text \<open>
  What an observer of the bus and of the handler sees, in order: a start condition
  requested (TWSTA), a byte loaded into TWDR, a stop condition requested (TWSTO), and
  the completion callback being called.
\<close>

datatype bus_event = START | BYTE u8 | STOP | CALLBACK callback cbk_arg

text \<open>
  The state: the TWI registers the driver writes (as plain cells holding what software
  wrote last), the file-scope variables of oled.c, the byte memory, the display
  object, and the observation trace \<open>bus\<close>, which the program never reads.

  \<open>i2c_prefix_count\<close> is declared \<open>static uint8_t *i2c_prefix_count\<close>: it is a
  pointer, and a data pointer of the AVR is 16 bits wide. The prefix length is stored
  in it zero-extended, \<open>--\<close> steps it by \<open>sizeof(uint8_t) = 1\<close>, and \<open>!\<close> tests all
  16 bits.
\<close>

record sys =
  TWBR :: u8
  TWSR :: u8
  TWCR :: u8
  TWDR :: u8
  i2c_devaddr :: u8
  i2c_prefix_ptr :: ptr
  i2c_prefix_count :: u16
  i2c_data_ptr :: ptr
  i2c_data_count :: u16
  i2c_is_fastfail :: bool
  i2c_callback :: callback
  i2c_callback_args :: cbk_arg
  i2c_state :: I2C_State_e
  mem :: memory
  oled :: OLED
  bus :: "bus_event list"

text \<open>Bit numbers of TWCR (avr/io.h, ATmega TWI).\<close>

definition TWINT :: nat where "TWINT = 7"
definition TWSTA :: nat where "TWSTA = 5"
definition TWSTO :: nat where "TWSTO = 4"
definition TWEN :: nat where "TWEN = 2"
definition TWIE :: nat where "TWIE = 0"

definition bv :: "nat \<Rightarrow> u8" where
  "bv n = push_bit n 1"

section \<open>The I2C layer\<close>

text \<open>
  \<open>I2C_init\<close>. The loop \<open>for (twps = 0; twps < 4; twps++)\<close> that selects the
  prescaler; \<open>F_CPU\<close> is a macro of the build and is a parameter here. The division
  \<open>F_CPU / (2 * hz_freq)\<close> is undefined when the 32-bit divisor is zero: \<open>None\<close>.
  \<open>power_twi_enable\<close> (avr/power.h) touches no state of this model.
\<close>

function twps_loop :: "u32 \<Rightarrow> u8 \<Rightarrow> u32 \<times> u8" where
  "twps_loop twbr twps =
     (if twps < 4 then
        (if twbr \<le> 255 then (twbr, twps) else twps_loop (twbr div 4) (twps + 1))
      else (twbr, twps))"
  by pat_completeness auto
termination
proof (relation "measure (\<lambda>(twbr, twps). 4 - unat twps)")
  show "wf (measure (\<lambda>(twbr :: u32, twps :: u8). 4 - unat twps))"
    by simp
next
  fix twbr :: u32 and twps :: u8
  assume a: "twps < 4"
  then have "unat twps < 4"
    by (simp add: word_less_nat_alt)
  then have "unat (twps + 1) = unat twps + 1"
    by (simp add: unat_word_ariths)
  with \<open>unat twps < 4\<close>
  show "((twbr div 4, twps + 1), (twbr, twps)) \<in> measure (\<lambda>(twbr, twps). 4 - unat twps)"
    by simp
qed

definition I2C_init :: "u32 \<Rightarrow> u32 \<Rightarrow> sys \<Rightarrow> sys option" where
  "I2C_init f_cpu hz_freq s =
     (if 2 * hz_freq = 0 then None
      else
        (case twps_loop (f_cpu div (2 * hz_freq) - 8) 0 of
           (twbr, twps) \<Rightarrow>
             Some (s\<lparr>i2c_state := I2C_STATE_IDLE,
                     TWBR := ucast twbr,
                     TWSR := (TWSR s AND 0xFC) OR (twps AND 0x03),
                     TWCR := bv TWEN OR bv TWIE\<rparr>)))"

text \<open>
  \<open>OLED_i2c_tx_shed\<close>. The body is one atomic block; the result is the returned flag
  and the state.
\<close>

definition OLED_i2c_tx_shed ::
  "u8 \<Rightarrow> ptr \<Rightarrow> u8 \<Rightarrow> ptr \<Rightarrow> u16 \<Rightarrow> callback \<Rightarrow> cbk_arg \<Rightarrow> bool \<Rightarrow> sys \<Rightarrow> bool \<times> sys" where
  "OLED_i2c_tx_shed addr prefix prefix_len bytes bytes_len end_cbk cbk_args fastfail s =
     (if i2c_state s = I2C_STATE_IDLE then
        (True,
         s\<lparr>i2c_prefix_ptr := prefix,
           i2c_prefix_count := ucast prefix_len,
           i2c_data_ptr := bytes,
           i2c_data_count := bytes_len,
           i2c_is_fastfail := fastfail,
           i2c_callback := end_cbk,
           i2c_callback_args := cbk_args,
           i2c_state := I2C_STATE_SLAVEADDR,
           i2c_devaddr := push_bit 1 addr,
           TWCR := TWCR s OR (bv TWSTA OR bv TWINT),
           bus := bus s @ [START]\<rparr>)
      else (False, s))"

text \<open>
  The loop \<open>while (!OLED_i2c_tx_shed(...)) { }\<close>. A rejected submission changes
  nothing, so the loop repeats from the same state until an interrupt handler has made
  the bus idle. \<open>None\<close>: from this state the loop does not exit by itself (inside the
  interrupt handler, where interrupts are blocked, it never exits).
\<close>

definition spin_tx_shed ::
  "u8 \<Rightarrow> ptr \<Rightarrow> u8 \<Rightarrow> ptr \<Rightarrow> u16 \<Rightarrow> callback \<Rightarrow> cbk_arg \<Rightarrow> bool \<Rightarrow> sys \<Rightarrow> sys option" where
  "spin_tx_shed addr prefix prefix_len bytes bytes_len end_cbk cbk_args fastfail s =
     (case OLED_i2c_tx_shed addr prefix prefix_len bytes bytes_len end_cbk cbk_args fastfail s of
        (True, s') \<Rightarrow> Some s'
      | (False, s') \<Rightarrow> None)"

text \<open>
  Modelled from the spec: \<open>OLED_unlock\<close> and \<open>OLED_spinlock\<close> are defined in oled.h,
  which is not among the sources. Release restores the free value 1; the blocking
  acquire polls until the flag is free (non-zero) and then claims it. \<open>None\<close>: the
  caller is still polling in this state.
\<close>

definition OLED_unlock :: "sys \<Rightarrow> sys" where
  "OLED_unlock s = s\<lparr>oled := (oled s)\<lparr>busy_lock := 1\<rparr>\<rparr>"

definition OLED_spinlock :: "sys \<Rightarrow> sys option" where
  "OLED_spinlock s =
     (if busy_lock (oled s) \<noteq> 0 then Some (s\<lparr>oled := (oled s)\<lparr>busy_lock := 0\<rparr>\<rparr>)
      else None)"

text \<open>
  The callbacks. Each casts its argument to \<open>OLED *\<close>; with a null argument the
  three that dereference it have no defined behaviour (\<open>None\<close>).
\<close>

definition cbk_writepage :: "cbk_arg \<Rightarrow> sys \<Rightarrow> sys option" where
  "cbk_writepage args s =
     (case args of
        ARG_NULL \<Rightarrow> None
      | ARG_OLED \<Rightarrow>
          (if cur_page (oled s) \<ge> num_pages (oled s) then Some (OLED_unlock s)
           else
             (let lineptr = ptr_add (frame_buffer (oled s))
                              (unat ((ucast (cur_page (oled s)) :: u16) * ucast (width (oled s))));
                  s1 = s\<lparr>oled := (oled s)\<lparr>cur_page := cur_page (oled s) + 1\<rparr>\<rparr>
              in spin_tx_shed (i2c_addr (oled s1)) (Ptr I2C_CMD_DATAPREFIX 0) 1
                   lineptr (ucast (width (oled s1)))
                   OLED_cbk_setwritepage ARG_OLED True s1)))"

definition cbk_setwritepage :: "cbk_arg \<Rightarrow> sys \<Rightarrow> sys option" where
  "cbk_setwritepage args s =
     (case args of
        ARG_NULL \<Rightarrow> None
      | ARG_OLED \<Rightarrow>
          (let s1 = s\<lparr>mem := store (mem s) (Ptr I2C_CMD_SETPAGE 5) (0xB0 OR cur_page (oled s))\<rparr>
           in spin_tx_shed (i2c_addr (oled s1)) (Ptr I2C_CMD_SETPAGE 0) 6 NULL 0
                OLED_cbk_writepage ARG_OLED True s1))"

fun call :: "callback \<Rightarrow> cbk_arg \<Rightarrow> sys \<Rightarrow> sys option" where
  "call CBK_NULL args s = None"
| "call OLED_cbk_empty args s = Some s"
| "call OLED_cbk_unlock args s =
     (case args of ARG_NULL \<Rightarrow> None | ARG_OLED \<Rightarrow> Some (OLED_unlock s))"
| "call OLED_cbk_writepage args s = cbk_writepage args s"
| "call OLED_cbk_setwritepage args s = cbk_setwritepage args s"

text \<open>
  \<open>ISR(TWI_vect)\<close>, in two parts: \<open>TWI_fsm\<close> is the switch up to, and not including,
  the call \<open>(*i2c_callback)(i2c_callback_args)\<close>, and says whether that call is made;
  \<open>TWI_vect\<close> is the whole handler.
\<close>

definition TWI_fsm :: "sys \<Rightarrow> sys \<times> bool" where
  "TWI_fsm s =
     (case i2c_state s of
        I2C_STATE_IDLE \<Rightarrow>
          (s\<lparr>TWCR := TWCR s OR (bv TWSTO OR bv TWINT),
             i2c_state := I2C_STATE_IDLE,
             bus := bus s @ [STOP, CALLBACK (i2c_callback s) (i2c_callback_args s)]\<rparr>, True)
      | I2C_STATE_STOP \<Rightarrow>
          (s\<lparr>TWCR := TWCR s OR (bv TWSTO OR bv TWINT),
             i2c_state := I2C_STATE_IDLE,
             bus := bus s @ [STOP, CALLBACK (i2c_callback s) (i2c_callback_args s)]\<rparr>, True)
      | I2C_STATE_SLAVEADDR \<Rightarrow>
          (s\<lparr>TWDR := i2c_devaddr s,
             TWCR := (TWCR s AND NOT (bv TWSTA)) OR bv TWINT,
             i2c_state :=
               (if i2c_prefix_ptr s = NULL \<and> i2c_data_ptr s = NULL then I2C_STATE_STOP
                else if i2c_prefix_ptr s = NULL then I2C_STATE_WRITEBYTE
                else I2C_STATE_WRITEPREFIX),
             bus := bus s @ [BYTE (i2c_devaddr s)]\<rparr>, False)
      | I2C_STATE_WRITEPREFIX \<Rightarrow>
          (s\<lparr>TWDR := load (mem s) (i2c_prefix_ptr s),
             i2c_prefix_ptr := ptr_add (i2c_prefix_ptr s) 1,
             i2c_prefix_count := i2c_prefix_count s - 1,
             TWCR := TWCR s OR bv TWINT,
             i2c_state :=
               (if i2c_prefix_count s - 1 = 0
                then (if i2c_data_ptr s = NULL then I2C_STATE_STOP else I2C_STATE_WRITEBYTE)
                else I2C_STATE_WRITEPREFIX),
             bus := bus s @ [BYTE (load (mem s) (i2c_prefix_ptr s))]\<rparr>, False)
      | I2C_STATE_WRITEBYTE \<Rightarrow>
          (s\<lparr>TWDR := load (mem s) (i2c_data_ptr s),
             i2c_data_ptr := ptr_add (i2c_data_ptr s) 1,
             i2c_data_count := i2c_data_count s - 1,
             TWCR := TWCR s OR bv TWINT,
             i2c_state :=
               (if i2c_data_count s - 1 = 0 then I2C_STATE_STOP else I2C_STATE_WRITEBYTE),
             bus := bus s @ [BYTE (load (mem s) (i2c_data_ptr s))]\<rparr>, False))"

definition TWI_vect :: "sys \<Rightarrow> sys option" where
  "TWI_vect s =
     (case TWI_fsm s of
        (s', True) \<Rightarrow> call (i2c_callback s') (i2c_callback_args s') s'
      | (s', False) \<Rightarrow> Some s')"

text \<open>\<open>n\<close> hardware events in a row, each served by the handler.\<close>

fun events :: "nat \<Rightarrow> sys \<Rightarrow> sys option" where
  "events 0 s = Some s"
| "events (Suc n) s = (case TWI_vect s of None \<Rightarrow> None | Some s' \<Rightarrow> events n s')"

text \<open>\<open>OLED_cmd_setbrightness\<close> and \<open>OLED_refresh\<close>.\<close>

definition OLED_cmd_setbrightness :: "u8 \<Rightarrow> sys \<Rightarrow> sys option" where
  "OLED_cmd_setbrightness level s =
     (case OLED_spinlock (s\<lparr>mem := store (mem s) (Ptr I2C_CMD_SETBRIGHTNESS 3) level\<rparr>) of
        None \<Rightarrow> None
      | Some s1 \<Rightarrow>
          spin_tx_shed (i2c_addr (oled s1)) (Ptr I2C_CMD_SETBRIGHTNESS 0) 4 NULL 0
            OLED_cbk_unlock ARG_OLED True s1)"

definition OLED_refresh :: "sys \<Rightarrow> sys option" where
  "OLED_refresh s =
     (case OLED_spinlock s of
        None \<Rightarrow> None
      | Some s1 \<Rightarrow> cbk_setwritepage ARG_OLED (s1\<lparr>oled := (oled s1)\<lparr>cur_page := 0\<rparr>\<rparr>))"

section \<open>The display layer\<close>

text \<open>
  \<open>__OLED_init\<close>, in the build with the I2C part compiled in (\<open>OLED_I2CWRAP\<close> keeps
  its argument).
\<close>

definition OLED_init ::
  "u32 \<Rightarrow> u8 \<Rightarrow> u8 \<Rightarrow> ptr \<Rightarrow> u32 \<Rightarrow> u8 \<Rightarrow> sys \<Rightarrow> (OLED_err \<times> sys) option" where
  "OLED_init f_cpu w h fb i2c_freq_hz addr s =
     (let s1 = s\<lparr>oled := (oled s)\<lparr>width := w, height := h, frame_buffer := fb,
                                  busy_lock := 1, i2c_addr := addr, cur_page := 0,
                                  num_pages := 8\<rparr>\<rparr>
      in case I2C_init f_cpu i2c_freq_hz s1 of
           None \<Rightarrow> None
         | Some s2 \<Rightarrow>
             (case OLED_i2c_tx_shed (i2c_addr (oled s2)) (Ptr I2C_CMD_INIT 0) 12 NULL 0
                     OLED_cbk_empty ARG_NULL True s2 of
                (False, s3) \<Rightarrow> Some (OLED_EBUSY, s3)
              | (True, s3) \<Rightarrow> Some (OLED_EOK, s3)))"


text \<open>
  The enumerators \<open>OLED_BLACK\<close> and \<open>OLED_FILL\<close> of \<open>enum OLED_params\<close> are
  declared in oled.h, which is not among the sources: they are parameters. The enum has
  no negative enumerator, so it is an unsigned 16-bit integer on the AVR.
\<close>

record oled_params =
  OLED_BLACK :: u16
  OLED_FILL :: u16

text \<open>
  Modelled from the spec: \<open>OLED_put_pixel_\<close>, the inline of oled.h that writes one
  pixel without a bounds check, is not among the sources. The frame buffer holds one bit
  per pixel in page-major layout: pixel \<open>(x, y)\<close> is bit \<open>y mod 8\<close> of the byte at
  index \<open>(y div 8) * width + x\<close>, and a set bit is a pixel in the requested state
  \<open>true\<close>. \<open>pixel_bit\<close> reads that bit back.
\<close>

definition pixel_cell :: "OLED \<Rightarrow> u8 \<Rightarrow> u8 \<Rightarrow> ptr" where
  "pixel_cell d x y = ptr_add (frame_buffer d) (unat (drop_bit 3 y) * unat (width d) + unat x)"

definition OLED_put_pixel_inl :: "u8 \<Rightarrow> u8 \<Rightarrow> bool \<Rightarrow> sys \<Rightarrow> sys" where
  "OLED_put_pixel_inl x y pixel_state s =
     (let p = pixel_cell (oled s) x y;
          b = push_bit (unat (y AND 7)) (1 :: u8);
          old = load (mem s) p
      in s\<lparr>mem := store (mem s) p (if pixel_state then old OR b else old AND NOT b)\<rparr>)"

definition pixel_bit :: "sys \<Rightarrow> u8 \<Rightarrow> u8 \<Rightarrow> bool" where
  "pixel_bit s x y = bit (load (mem s) (pixel_cell (oled s) x y)) (unat (y AND 7))"

text \<open>\<open>OLED_put_pixel\<close>.\<close>

definition OLED_put_pixel :: "u8 \<Rightarrow> u8 \<Rightarrow> bool \<Rightarrow> sys \<Rightarrow> OLED_err \<times> sys" where
  "OLED_put_pixel x y pixel_state s =
     (if x \<ge> width (oled s) \<or> y \<ge> height (oled s) then (OLED_EBOUNDS, s)
      else (OLED_EOK, OLED_put_pixel_inl x y pixel_state s))"

text \<open>
  A loop \<open>for (uint8_t x = x0; x <= bound; x++) body\<close>, where \<open>bound\<close> is the value
  of an \<open>int\<close> expression that the loop does not change. The counter wraps from 255
  to 0, so with a bound of 255 or more the condition never fails and the loop does not
  end: \<open>None\<close>.
\<close>

function for_u8 :: "u8 \<Rightarrow> nat \<Rightarrow> (u8 \<Rightarrow> sys \<Rightarrow> sys option) \<Rightarrow> sys \<Rightarrow> sys option" where
  "for_u8 x bound body s =
     (if unat x \<le> bound then
        (if 255 \<le> bound then None
         else (case body x s of None \<Rightarrow> None | Some s' \<Rightarrow> for_u8 (x + 1) bound body s'))
      else Some s)"
  by pat_completeness auto
termination
proof (relation "measure (\<lambda>(x, bound, body, s). Suc bound - unat x)")
  show "wf (measure (\<lambda>(x :: u8, bound :: nat, body :: u8 \<Rightarrow> sys \<Rightarrow> sys option, s :: sys). Suc bound - unat x))"
    by simp
next
  fix x :: u8 and bound :: nat and body :: "u8 \<Rightarrow> sys \<Rightarrow> sys option" and s s' :: sys
  assume a: "unat x \<le> bound" "\<not> 255 \<le> bound"
  then have "unat x < 255" by simp
  then have "unat (x + 1) = unat x + 1"
    by (simp add: unat_word_ariths)
  with a show "((x + 1, bound, body, s'), (x, bound, body, s)) \<in> measure (\<lambda>(x, bound, body, s). Suc bound - unat x)"
    by simp
qed

declare for_u8.simps [simp del]

text \<open>
  \<open>drawCircleHelper\<close> and \<open>fillCircleHelper\<close>. Their \<open>int16_t\<close> variables are
  kept as unbounded integers: signed overflow is undefined in C, and none occurs for the
  radii that \<open>OLED_put_roundRect\<close> passes. A coordinate is cut to \<open>uint8_t\<close> where
  it is passed to \<open>OLED_put_pixel_\<close>. \<open>OLED_put_line\<close> is called but defined nowhere
  in the sources: it is the parameter \<open>put_line\<close>, given the values of its four
  coordinate arguments and its flags.
\<close>

definition put_xy :: "int \<Rightarrow> int \<Rightarrow> bool \<Rightarrow> sys \<Rightarrow> sys" where
  "put_xy a b c s = OLED_put_pixel_inl (word_of_int a) (word_of_int b) c s"

function drawCircle_loop ::
  "int \<Rightarrow> int \<Rightarrow> u8 \<Rightarrow> bool \<Rightarrow> int \<Rightarrow> int \<Rightarrow> int \<Rightarrow> int \<Rightarrow> int \<Rightarrow> sys \<Rightarrow> sys" where
  "drawCircle_loop x0 y0 cornername c f ddF_x ddF_y x y s =
     (if x < y then
        (let y1 = (if 0 \<le> f then y - 1 else y);
             ddF_y1 = (if 0 \<le> f then ddF_y + 2 else ddF_y);
             f1 = (if 0 \<le> f then f + ddF_y1 else f);
             x1 = x + 1;
             ddF_x1 = ddF_x + 2;
             f2 = f1 + ddF_x1;
             s1 = (if cornername AND 0x4 \<noteq> 0
                   then put_xy (x0 + y1) (y0 + x1) c (put_xy (x0 + x1) (y0 + y1) c s) else s);
             s2 = (if cornername AND 0x2 \<noteq> 0
                   then put_xy (x0 + y1) (y0 - x1) c (put_xy (x0 + x1) (y0 - y1) c s1) else s1);
             s3 = (if cornername AND 0x8 \<noteq> 0
                   then put_xy (x0 - x1) (y0 + y1) c (put_xy (x0 - y1) (y0 + x1) c s2) else s2);
             s4 = (if cornername AND 0x1 \<noteq> 0
                   then put_xy (x0 - x1) (y0 - y1) c (put_xy (x0 - y1) (y0 - x1) c s3) else s3)
         in drawCircle_loop x0 y0 cornername c f2 ddF_x1 ddF_y1 x1 y1 s4)
      else s)"
  by pat_completeness auto
termination
  by (relation "measure (\<lambda>(x0, y0, cornername, c, f, ddF_x, ddF_y, x, y, s). nat (y - x))") auto

declare drawCircle_loop.simps [simp del]


function fillCircle_loop ::
  "(int \<Rightarrow> int \<Rightarrow> int \<Rightarrow> int \<Rightarrow> u16 \<Rightarrow> sys \<Rightarrow> sys option) \<Rightarrow>
   int \<Rightarrow> int \<Rightarrow> u8 \<Rightarrow> int \<Rightarrow> u16 \<Rightarrow> int \<Rightarrow> int \<Rightarrow> int \<Rightarrow> int \<Rightarrow> int \<Rightarrow> sys \<Rightarrow> sys option" where
  "fillCircle_loop put_line x0 y0 cornername delta lp f ddF_x ddF_y x y s =
     (if x < y then
        (let y1 = (if 0 \<le> f then y - 1 else y);
             ddF_y1 = (if 0 \<le> f then ddF_y + 2 else ddF_y);
             f1 = (if 0 \<le> f then f + ddF_y1 else f);
             x1 = x + 1;
             ddF_x1 = ddF_x + 2;
             f2 = f1 + ddF_x1
         in case (if cornername AND 0x1 \<noteq> 0 then
                    (case put_line (x0 + x1) (y0 - y1) (x0 + x1)
                            (y0 - y1 + (2 * y1 + 1 + delta) - 1) lp s of
                       None \<Rightarrow> None
                     | Some sa \<Rightarrow>
                         put_line (x0 + y1) (y0 - x1) (x0 + y1)
                           (y0 - x1 + (2 * x1 + 1 + delta) - 1) lp sa)
                  else Some s) of
              None \<Rightarrow> None
            | Some s1 \<Rightarrow>
                (case (if cornername AND 0x2 \<noteq> 0 then
                         (case put_line (x0 - x1) (y0 - y1) (x0 - x1)
                                 (y0 - y1 + (2 * y1 + 1 + delta) - 1) lp s1 of
                            None \<Rightarrow> None
                          | Some sa \<Rightarrow>
                              put_line (x0 - y1) (y0 - x1) (x0 - y1)
                                (y0 - x1 + (2 * x1 + 1 + delta) - 1) lp sa)
                       else Some s1) of
                   None \<Rightarrow> None
                 | Some s2 \<Rightarrow>
                     fillCircle_loop put_line x0 y0 cornername delta lp f2 ddF_x1 ddF_y1 x1 y1 s2))
      else Some s)"
  by pat_completeness auto
termination
  by (relation "measure (\<lambda>(put_line, x0, y0, cornername, delta, lp, f, ddF_x, ddF_y, x, y, s). nat (y - x))") auto

declare fillCircle_loop.simps [simp del]

definition drawCircleHelper ::
  "oled_params \<Rightarrow> int \<Rightarrow> int \<Rightarrow> int \<Rightarrow> u8 \<Rightarrow> u16 \<Rightarrow> sys \<Rightarrow> OLED_err \<times> sys" where
  "drawCircleHelper e x0 y0 r cornername params s =
     (if params > (OLED_BLACK e OR OLED_FILL e) then (OLED_EPARAMS, s)
      else (OLED_EOK,
            drawCircle_loop x0 y0 cornername (OLED_BLACK e AND params \<noteq> 0)
              (1 - r) 1 (- 2 * r) 0 r s))"

definition fillCircleHelper ::
  "oled_params \<Rightarrow> (int \<Rightarrow> int \<Rightarrow> int \<Rightarrow> int \<Rightarrow> u16 \<Rightarrow> sys \<Rightarrow> sys option) \<Rightarrow>
   int \<Rightarrow> int \<Rightarrow> int \<Rightarrow> u8 \<Rightarrow> int \<Rightarrow> u16 \<Rightarrow> sys \<Rightarrow> (OLED_err \<times> sys) option" where
  "fillCircleHelper e put_line x0 y0 r cornername delta params s =
     (if params > (OLED_BLACK e OR OLED_FILL e) then Some (OLED_EPARAMS, s)
      else map_option (Pair OLED_EOK)
             (fillCircle_loop put_line x0 y0 cornername delta (OLED_FILL e OR params)
                (1 - r) 1 (- 2 * r) 0 r s))"

text \<open>
  \<open>OLED_put_rectangle\<close> and \<open>OLED_put_roundRect\<close>. \<open>limit\<close> is the step
  \<open>if (v > v_max) { v = v_max; size_errors++; }\<close>.
\<close>

definition limit :: "u8 \<Rightarrow> u8 \<Rightarrow> u8 \<Rightarrow> u8 \<times> u8" where
  "limit v v_max size_errors =
     (if v > v_max then (v_max, size_errors + 1) else (v, size_errors))"

definition OLED_put_rectangle ::
  "oled_params \<Rightarrow> u8 \<Rightarrow> u8 \<Rightarrow> u8 \<Rightarrow> u8 \<Rightarrow> u16 \<Rightarrow> sys \<Rightarrow> (OLED_err \<times> sys) option" where
  "OLED_put_rectangle e x_from y_from x_to y_to params s =
     (if params > (OLED_BLACK e OR OLED_FILL e) then Some (OLED_EPARAMS, s)
      else
        (let pixel_color = (OLED_BLACK e AND params \<noteq> 0);
             is_fill = (OLED_FILL e AND params \<noteq> 0);
             w_max = width (oled s) - 1;
             h_max = height (oled s) - 1;
             (x_from, n1) = limit x_from w_max 0;
             (x_to, n2) = limit x_to w_max n1;
             (y_from, n3) = limit y_from h_max n2;
             (y_to, n4) = limit y_to h_max n3
         in if n4 \<ge> 4 then Some (OLED_EBOUNDS, s)
            else
              (let start_x = (if x_to < x_from then x_to else x_from);
                   start_y = (if y_to < y_from then y_to else y_from);
                   stop_x = (if x_to > x_from then x_to else x_from);
                   stop_y = (if y_to > y_from then y_to else y_from)
               in if is_fill then
                    map_option (Pair OLED_EOK)
                      (for_u8 start_x (unat stop_x)
                         (\<lambda>x. for_u8 start_y (unat stop_y)
                                (\<lambda>y s. Some (OLED_put_pixel_inl x y pixel_color s))) s)
                  else
                    (case for_u8 start_x (unat stop_x)
                            (\<lambda>x s. Some (OLED_put_pixel_inl x stop_y pixel_color
                                           (OLED_put_pixel_inl x start_y pixel_color s))) s of
                       None \<Rightarrow> None
                     | Some s1 \<Rightarrow>
                         map_option (Pair OLED_EOK)
                           (for_u8 start_y (unat stop_y)
                              (\<lambda>y s. Some (OLED_put_pixel_inl stop_x y pixel_color
                                             (OLED_put_pixel_inl start_x y pixel_color s))) s1)))))"

definition OLED_put_roundRect ::
  "oled_params \<Rightarrow> (int \<Rightarrow> int \<Rightarrow> int \<Rightarrow> int \<Rightarrow> u16 \<Rightarrow> sys \<Rightarrow> sys option) \<Rightarrow>
   u8 \<Rightarrow> u8 \<Rightarrow> u8 \<Rightarrow> u8 \<Rightarrow> u8 \<Rightarrow> u16 \<Rightarrow> sys \<Rightarrow> (OLED_err \<times> sys) option" where
  "OLED_put_roundRect e put_line x_from y_from x_to y_to r params s =
     (if params > (OLED_BLACK e OR OLED_FILL e) then Some (OLED_EPARAMS, s)
      else
        (let pixel_color = (OLED_BLACK e AND params \<noteq> 0);
             is_fill = (OLED_FILL e AND params \<noteq> 0);
             w_max = width (oled s) - 1;
             h_max = height (oled s) - 1;
             (x_from, n1) = limit x_from w_max 0;
             (x_to, n2) = limit x_to w_max n1;
             (y_from, n3) = limit y_from h_max n2;
             (y_to, n4) = limit y_to h_max n3
         in if n4 \<ge> 4 then Some (OLED_EBOUNDS, s)
            else
              (let start_x = x_from;
                   start_y = y_from;
                   stop_x = x_to;
                   stop_y = y_to;
                   ix = (\<lambda>v. int (unat v));
                   cp = (of_bool pixel_color :: u16)
               in if is_fill then
                    (case for_u8 (start_x + r) (unat stop_x + unat r)
                            (\<lambda>x. for_u8 start_y (unat stop_y + 2 * unat r)
                                   (\<lambda>y s. Some (OLED_put_pixel_inl x y pixel_color s))) s of
                       None \<Rightarrow> None
                     | Some s1 \<Rightarrow>
                         (case fillCircleHelper e put_line (ix start_x + ix stop_x - ix r - 1)
                                 (ix start_y + ix r) (ix r) 1 (ix stop_y - 2 * ix r - 1) cp s1 of
                            None \<Rightarrow> None
                          | Some (e1, s2) \<Rightarrow>
                              (case fillCircleHelper e put_line (ix start_x + ix r)
                                      (ix start_y + ix r) (ix r) 2 (ix stop_y - 2 * ix r - 1) cp s2 of
                                 None \<Rightarrow> None
                               | Some (e2, s3) \<Rightarrow> Some (OLED_EOK, s3))))
                  else
                    (case for_u8 start_x (unat stop_x)
                            (\<lambda>x s. Some (OLED_put_pixel_inl (x + r) (stop_y + r * 2) pixel_color
                                           (OLED_put_pixel_inl (x + r) start_y pixel_color s))) s of
                       None \<Rightarrow> None
                     | Some s1 \<Rightarrow>
                         (case for_u8 start_y (unat stop_y)
                                 (\<lambda>y s. Some (OLED_put_pixel_inl (stop_x + 2 * r) (y + r) pixel_color
                                                (OLED_put_pixel_inl start_x (y + r) pixel_color s))) s1 of
                            None \<Rightarrow> None
                          | Some s2 \<Rightarrow>
                              (let s3 = snd (drawCircleHelper e (ix x_from + ix r)
                                               (ix start_y + ix r) (ix r) 1 cp s2);
                                   s4 = snd (drawCircleHelper e (ix start_x + ix stop_x - ix r - 1)
                                               (ix start_y + ix r) (ix r) 2 cp s3);
                                   s5 = snd (drawCircleHelper e (ix start_x + ix stop_x - ix r - 1)
                                               (ix start_y + ix stop_y - ix r - 1) (ix r) 4 cp s4);
                                   s6 = snd (drawCircleHelper e (ix start_x + ix r)
                                               (ix start_y + ix stop_y - ix r - 1) (ix r) 8 cp s5)
                               in Some (OLED_EOK, s6)))))))"

section \<open>A start state\<close>

text \<open>The state at program start: bus idle, static arrays initialised, the display
  object not yet initialised.\<close>

definition boot :: sys where
  "boot = \<lparr>TWBR = 0, TWSR = 0, TWCR = 0, TWDR = 0,
           i2c_devaddr = 0, i2c_prefix_ptr = NULL, i2c_prefix_count = 0,
           i2c_data_ptr = NULL, i2c_data_count = 0, i2c_is_fastfail = False,
           i2c_callback = CBK_NULL, i2c_callback_args = ARG_NULL,
           i2c_state = I2C_STATE_IDLE, mem = boot_memory,
           oled = \<lparr>width = 0, height = 0, frame_buffer = NULL, busy_lock = 0,
                   i2c_addr = 0, cur_page = 0, num_pages = 0\<rparr>,
           bus = []\<rparr>"

section \<open>Notions used in the statements\<close>

text \<open>Values for the two enumerators, used where a statement is evaluated:
  oled_test.c combines \<open>OLED_FILL\<close> with the colours 0 and 1.\<close>

definition enum_1_2 :: oled_params where
  "enum_1_2 = \<lparr>OLED_BLACK = 1, OLED_FILL = 2\<rparr>"

text \<open>
  \<open>ticks c\<close>: how many times a 16-bit counter holding \<open>c\<close> is decremented until it
  is zero again. \<open>bytes_at m p n\<close>: the \<open>n\<close> bytes of memory \<open>m\<close> from pointer
  \<open>p\<close> on. \<open>fired s\<close>: how many times a completion callback has been called so far.
  \<open>request s\<close>: the fields of the request in flight that a byte transfer leaves alone.
\<close>

definition ticks :: "u16 \<Rightarrow> nat" where
  "ticks c = (if c = 0 then 65536 else unat c)"

definition bytes_at :: "memory \<Rightarrow> ptr \<Rightarrow> nat \<Rightarrow> u8 list" where
  "bytes_at m p n = map (\<lambda>i. load m (ptr_add p i)) [0..<n]"

fun is_callback :: "bus_event \<Rightarrow> bool" where
  "is_callback (CALLBACK c a) = True"
| "is_callback e = False"

definition fired :: "sys \<Rightarrow> nat" where
  "fired s = length (filter is_callback (bus s))"

definition request :: "sys \<Rightarrow> u8 \<times> bool \<times> callback \<times> cbk_arg" where
  "request s = (i2c_devaddr s, i2c_is_fastfail s, i2c_callback s, i2c_callback_args s)"

text \<open>The events a transaction spends on its prefix and on its data: none for a null
  pointer, otherwise as many as the counter takes to reach zero.\<close>

definition prefix_events :: "sys \<Rightarrow> nat" where
  "prefix_events s = (if i2c_prefix_ptr s = NULL then 0 else ticks (i2c_prefix_count s))"

definition data_events :: "sys \<Rightarrow> nat" where
  "data_events s = (if i2c_data_ptr s = NULL then 0 else ticks (i2c_data_count s))"

text \<open>
  The trace of a refresh. \<open>select_page_tx m d p\<close> is the select-page transaction for
  page index \<open>p\<close>: start, address, the first five bytes of \<open>_i2c_cmd_setpage\<close>, the
  patched last byte \<open>0xB0 | p\<close>, stop, and the call of \<open>OLED_cbk_writepage\<close>.
  \<open>write_page_tx m d p\<close> is the transfer of page \<open>p\<close>: start, address, the data
  prefix, \<open>width\<close> bytes of the frame buffer from index \<open>p * width\<close>, stop, and the
  call of \<open>OLED_cbk_setwritepage\<close>. \<open>refresh_trace\<close> is what the code sends for a
  whole refresh, and \<open>refresh_events\<close> the number of hardware events that takes.
\<close>

definition select_page_tx :: "memory \<Rightarrow> OLED \<Rightarrow> nat \<Rightarrow> bus_event list" where
  "select_page_tx m d p =
     START # BYTE (push_bit 1 (i2c_addr d)) # map BYTE (bytes_at m (Ptr I2C_CMD_SETPAGE 0) 5)
       @ [BYTE (0xB0 OR of_nat p), STOP, CALLBACK OLED_cbk_writepage ARG_OLED]"

definition write_page_tx :: "memory \<Rightarrow> OLED \<Rightarrow> nat \<Rightarrow> bus_event list" where
  "write_page_tx m d p =
     START # BYTE (push_bit 1 (i2c_addr d)) # BYTE (m I2C_CMD_DATAPREFIX 0)
       # map BYTE (bytes_at m (ptr_add (frame_buffer d) (p * unat (width d))) (unat (width d)))
       @ [STOP, CALLBACK OLED_cbk_setwritepage ARG_OLED]"

definition refresh_trace :: "memory \<Rightarrow> OLED \<Rightarrow> bus_event list" where
  "refresh_trace m d =
     concat (map (\<lambda>p. select_page_tx m d p @ write_page_tx m d p) [0..<unat (num_pages d)])
       @ select_page_tx m d (unat (num_pages d))"

definition refresh_events :: "OLED \<Rightarrow> nat" where
  "refresh_events d = unat (num_pages d) * (unat (width d) + 11) + 8"

text \<open>
  \<open>at_select s p t\<close>: in state \<open>t\<close> the select-page transaction for page index \<open>p\<close>
  of a refresh started in state \<open>s\<close> has just been submitted.
\<close>

definition at_select :: "sys \<Rightarrow> nat \<Rightarrow> sys \<Rightarrow> bool" where
  "at_select s p t =
     (i2c_state t = I2C_STATE_SLAVEADDR \<and>
      i2c_prefix_ptr t = Ptr I2C_CMD_SETPAGE 0 \<and> i2c_prefix_count t = 6 \<and>
      i2c_data_ptr t = NULL \<and>
      i2c_devaddr t = push_bit 1 (i2c_addr (oled s)) \<and>
      i2c_callback t = OLED_cbk_writepage \<and> i2c_callback_args t = ARG_OLED \<and>
      oled t = (oled s)\<lparr>busy_lock := 0, cur_page := of_nat p\<rparr> \<and>
      mem t = store (mem s) (Ptr I2C_CMD_SETPAGE 5) (0xB0 OR of_nat p))"

text \<open>
  A state the program reaches: a display of 2 columns and 64 rows initialised by
  \<open>__OLED_init\<close> from the start state, after the 14 events of the bring-up
  transaction. The bus is idle and the lock is free.
\<close>

definition ready :: sys where
  "ready =
     (case OLED_init 16000000 2 64 (Ptr (CALLER 0) 0) 200000 0x3C boot of
        None \<Rightarrow> boot
      | Some (e, s) \<Rightarrow> (case events 14 s of None \<Rightarrow> boot | Some s' \<Rightarrow> s'))"

text \<open>
  \<open>clamp v n\<close>: a coordinate \<open>v\<close> limited to a display of \<open>n\<close> columns or rows.
  \<open>rect_pixel is_fill x1 y1 x2 y2 x y\<close>: pixel \<open>(x, y)\<close> belongs to the rectangle with
  the corners \<open>(x1, y1)\<close> and \<open>(x2, y2)\<close>: to the whole of it when it is filled, to
  its outline when it is not.
\<close>

definition clamp :: "u8 \<Rightarrow> u8 \<Rightarrow> u8" where
  "clamp v n = (if v \<ge> n then n - 1 else v)"

definition rect_pixel :: "bool \<Rightarrow> u8 \<Rightarrow> u8 \<Rightarrow> u8 \<Rightarrow> u8 \<Rightarrow> u8 \<Rightarrow> u8 \<Rightarrow> bool" where
  "rect_pixel is_fill x1 y1 x2 y2 x y =
     (min x1 x2 \<le> x \<and> x \<le> max x1 x2 \<and> min y1 y2 \<le> y \<and> y \<le> max y1 y2 \<and>
      (is_fill \<or> x = min x1 x2 \<or> x = max x1 x2 \<or> y = min y1 y2 \<or> y = max y1 y2))"

section \<open>Submission\<close>

lemma unat_ucast_8_16: "unat (ucast (x :: u8) :: u16) = unat x"
proof -
  have "unat x < 2 ^ 8" using unsigned_less [of x] by simp
  then have "unat x < 2 ^ 16" by simp
  then show ?thesis
    by (simp add: unsigned_ucast_eq take_bit_nat_eq_self)
qed

text \<open>
  Claim C3. When the bus state is not Idle, \<open>OLED_i2c_tx_shed\<close> returns false and
  leaves the whole state, so all shared transaction state, unchanged. When it is Idle,
  it returns true, stores every supplied field in the shared request state (the device
  address shifted left by one, the prefix length zero-extended), sets the bus state to
  SlaveAddress and requests the start condition (TWSTA and TWINT in TWCR).
\<close>

theorem tx_shed_reject_or_capture:
  "(i2c_state s \<noteq> I2C_STATE_IDLE \<longrightarrow>
      OLED_i2c_tx_shed addr prefix prefix_len bytes bytes_len end_cbk cbk_args fastfail s = (False, s)) \<and>
   (i2c_state s = I2C_STATE_IDLE \<longrightarrow>
      (\<exists>s'. OLED_i2c_tx_shed addr prefix prefix_len bytes bytes_len end_cbk cbk_args fastfail s = (True, s') \<and>
            i2c_devaddr s' = push_bit 1 addr \<and>
            i2c_prefix_ptr s' = prefix \<and>
            unat (i2c_prefix_count s') = unat prefix_len \<and>
            i2c_data_ptr s' = bytes \<and>
            i2c_data_count s' = bytes_len \<and>
            i2c_is_fastfail s' = fastfail \<and>
            i2c_callback s' = end_cbk \<and>
            i2c_callback_args s' = cbk_args \<and>
            i2c_state s' = I2C_STATE_SLAVEADDR \<and>
            bit (TWCR s') TWSTA \<and> bit (TWCR s') TWINT \<and>
            bus s' = bus s @ [START] \<and>
            mem s' = mem s \<and> oled s' = oled s))"
  by (simp add: OLED_i2c_tx_shed_def bv_def TWSTA_def TWINT_def bit_simps unat_ucast_8_16)

theorem tx_shed_reject_or_capture_witness:
  "i2c_state boot = I2C_STATE_IDLE \<and>
   fst (OLED_i2c_tx_shed 0x3C (Ptr I2C_CMD_INIT 0) 12 NULL 0 OLED_cbk_empty ARG_NULL True boot) \<and>
   i2c_state (snd (OLED_i2c_tx_shed 0x3C (Ptr I2C_CMD_INIT 0) 12 NULL 0 OLED_cbk_empty ARG_NULL True boot))
     \<noteq> I2C_STATE_IDLE \<and>
   OLED_i2c_tx_shed 0x3C (Ptr I2C_CMD_SETBRIGHTNESS 0) 4 NULL 0 OLED_cbk_unlock ARG_OLED True
     (snd (OLED_i2c_tx_shed 0x3C (Ptr I2C_CMD_INIT 0) 12 NULL 0 OLED_cbk_empty ARG_NULL True boot))
   = (False, snd (OLED_i2c_tx_shed 0x3C (Ptr I2C_CMD_INIT 0) 12 NULL 0 OLED_cbk_empty ARG_NULL True boot))"
proof -
  let ?s1 = "snd (OLED_i2c_tx_shed 0x3C (Ptr I2C_CMD_INIT 0) 12 NULL 0 OLED_cbk_empty ARG_NULL True boot)"
  have idle: "i2c_state boot = I2C_STATE_IDLE"
    by (simp add: boot_def)
  from tx_shed_reject_or_capture [where s = boot and addr = "0x3C" and prefix = "Ptr I2C_CMD_INIT 0" and prefix_len = 12 and bytes = NULL and bytes_len = 0 and end_cbk = OLED_cbk_empty and cbk_args = ARG_NULL and fastfail = True] idle
  have acc: "fst (OLED_i2c_tx_shed 0x3C (Ptr I2C_CMD_INIT 0) 12 NULL 0 OLED_cbk_empty ARG_NULL True boot)"
    and busy: "i2c_state ?s1 \<noteq> I2C_STATE_IDLE"
    by auto
  from tx_shed_reject_or_capture [where s = ?s1 and addr = "0x3C" and prefix = "Ptr I2C_CMD_SETBRIGHTNESS 0" and prefix_len = 4 and bytes = NULL and bytes_len = 0 and end_cbk = OLED_cbk_unlock and cbk_args = ARG_OLED and fastfail = True] busy
  have "OLED_i2c_tx_shed 0x3C (Ptr I2C_CMD_SETBRIGHTNESS 0) 4 NULL 0 OLED_cbk_unlock ARG_OLED True ?s1 = (False, ?s1)"
    by blast
  with idle acc busy show ?thesis by blast
qed

section \<open>The interrupt handler, one event\<close>

text \<open>
  Claim C4. One call of the interrupt handler: in SlaveAddress it loads the address byte
  and goes to Stop when prefix and data are both absent, to WriteByte when only the
  prefix is absent, to WritePrefix otherwise; in WritePrefix it loads the next prefix
  byte, decrements the remaining prefix count and, when that is zero, goes to WriteByte
  if data is present and to Stop if not; in WriteByte it loads the next data byte,
  decrements the remaining data count and goes to Stop when that is zero.
\<close>

theorem isr_transitions:
  "(i2c_state s = I2C_STATE_SLAVEADDR \<longrightarrow>
      (\<exists>s'. TWI_vect s = Some s' \<and>
            TWDR s' = i2c_devaddr s \<and> bus s' = bus s @ [BYTE (i2c_devaddr s)] \<and>
            i2c_prefix_ptr s' = i2c_prefix_ptr s \<and> i2c_prefix_count s' = i2c_prefix_count s \<and>
            i2c_data_ptr s' = i2c_data_ptr s \<and> i2c_data_count s' = i2c_data_count s \<and>
            i2c_state s' =
              (if i2c_prefix_ptr s = NULL \<and> i2c_data_ptr s = NULL then I2C_STATE_STOP
               else if i2c_prefix_ptr s = NULL then I2C_STATE_WRITEBYTE
               else I2C_STATE_WRITEPREFIX))) \<and>
   (i2c_state s = I2C_STATE_WRITEPREFIX \<longrightarrow>
      (\<exists>s'. TWI_vect s = Some s' \<and>
            TWDR s' = load (mem s) (i2c_prefix_ptr s) \<and>
            bus s' = bus s @ [BYTE (load (mem s) (i2c_prefix_ptr s))] \<and>
            i2c_prefix_ptr s' = ptr_add (i2c_prefix_ptr s) 1 \<and>
            i2c_prefix_count s' = i2c_prefix_count s - 1 \<and>
            i2c_data_ptr s' = i2c_data_ptr s \<and> i2c_data_count s' = i2c_data_count s \<and>
            i2c_state s' =
              (if i2c_prefix_count s' = 0
               then (if i2c_data_ptr s = NULL then I2C_STATE_STOP else I2C_STATE_WRITEBYTE)
               else I2C_STATE_WRITEPREFIX))) \<and>
   (i2c_state s = I2C_STATE_WRITEBYTE \<longrightarrow>
      (\<exists>s'. TWI_vect s = Some s' \<and>
            TWDR s' = load (mem s) (i2c_data_ptr s) \<and>
            bus s' = bus s @ [BYTE (load (mem s) (i2c_data_ptr s))] \<and>
            i2c_data_ptr s' = ptr_add (i2c_data_ptr s) 1 \<and>
            i2c_data_count s' = i2c_data_count s - 1 \<and>
            i2c_prefix_ptr s' = i2c_prefix_ptr s \<and> i2c_prefix_count s' = i2c_prefix_count s \<and>
            i2c_state s' =
              (if i2c_data_count s' = 0 then I2C_STATE_STOP else I2C_STATE_WRITEBYTE)))"
  by (simp add: TWI_vect_def TWI_fsm_def)

theorem isr_transitions_witness:
  "map_option i2c_state
     (TWI_vect (boot\<lparr>i2c_state := I2C_STATE_SLAVEADDR,
                     i2c_prefix_ptr := Ptr I2C_CMD_DATAPREFIX 0, i2c_prefix_count := 1,
                     i2c_data_ptr := Ptr (CALLER 0) 0, i2c_data_count := 2\<rparr>))
     = Some I2C_STATE_WRITEPREFIX \<and>
   map_option i2c_state
     (TWI_vect (boot\<lparr>i2c_state := I2C_STATE_WRITEPREFIX,
                     i2c_prefix_ptr := Ptr I2C_CMD_DATAPREFIX 0, i2c_prefix_count := 1,
                     i2c_data_ptr := Ptr (CALLER 0) 0, i2c_data_count := 2\<rparr>))
     = Some I2C_STATE_WRITEBYTE \<and>
   map_option i2c_state
     (TWI_vect (boot\<lparr>i2c_state := I2C_STATE_WRITEBYTE,
                     i2c_prefix_ptr := Ptr I2C_CMD_DATAPREFIX 1, i2c_prefix_count := 0,
                     i2c_data_ptr := Ptr (CALLER 0) 1, i2c_data_count := 1\<rparr>))
     = Some I2C_STATE_STOP"
proof -
  let ?a = "boot\<lparr>i2c_state := I2C_STATE_SLAVEADDR,
                     i2c_prefix_ptr := Ptr I2C_CMD_DATAPREFIX 0, i2c_prefix_count := 1,
                     i2c_data_ptr := Ptr (CALLER 0) 0, i2c_data_count := 2\<rparr>"
  let ?b = "boot\<lparr>i2c_state := I2C_STATE_WRITEPREFIX,
                     i2c_prefix_ptr := Ptr I2C_CMD_DATAPREFIX 0, i2c_prefix_count := 1,
                     i2c_data_ptr := Ptr (CALLER 0) 0, i2c_data_count := 2\<rparr>"
  let ?c = "boot\<lparr>i2c_state := I2C_STATE_WRITEBYTE,
                     i2c_prefix_ptr := Ptr I2C_CMD_DATAPREFIX 1, i2c_prefix_count := 0,
                     i2c_data_ptr := Ptr (CALLER 0) 1, i2c_data_count := 1\<rparr>"
  have a: "i2c_state ?a = I2C_STATE_SLAVEADDR" by simp
  have b: "i2c_state ?b = I2C_STATE_WRITEPREFIX" by simp
  have c: "i2c_state ?c = I2C_STATE_WRITEBYTE" by simp
  from isr_transitions [of ?a] a
  have 1: "map_option i2c_state (TWI_vect ?a) = Some I2C_STATE_WRITEPREFIX"
    by (auto simp add: NULL_def)
  from isr_transitions [of ?b] b
  have 2: "map_option i2c_state (TWI_vect ?b) = Some I2C_STATE_WRITEBYTE"
    by (auto simp add: NULL_def)
  from isr_transitions [of ?c] c
  have 3: "map_option i2c_state (TWI_vect ?c) = Some I2C_STATE_STOP"
    by (auto simp add: NULL_def)
  from 1 2 3 show ?thesis by blast
qed

section \<open>Initialisation\<close>

lemma init_ok:
  "2 * i2c_freq_hz \<noteq> 0 \<Longrightarrow>
     \<exists>s'. OLED_init f_cpu w h fb i2c_freq_hz addr s = Some (OLED_EOK, s') \<and>
          width (oled s') = w \<and> height (oled s') = h \<and> frame_buffer (oled s') = fb \<and>
          busy_lock (oled s') = 1 \<and> num_pages (oled s') = 8"
  by (simp add: OLED_init_def I2C_init_def OLED_i2c_tx_shed_def Let_def split: prod.splits)

lemma div8_eq_8: "((8 :: u8) = h div 8) = (64 \<le> h \<and> h \<le> 71)"
proof -
  have "((8 :: u8) = h div 8) = (unat (8 :: u8) = unat (h div 8))"
    by (simp only: word_unat_eq_iff)
  also have "\<dots> = (unat h div 8 = 8)"
    by (auto simp add: unat_div)
  also have "\<dots> = (64 \<le> unat h \<and> unat h \<le> 71)"
    by arith
  also have "\<dots> = (64 \<le> h \<and> h \<le> 71)"
    by (simp add: word_le_nat_alt)
  finally show ?thesis .
qed

text \<open>
  Claim C6, as amended. Initialisation with any width and height succeeds (for a bus
  frequency whose double is not zero) and gives the display the page count 8, whatever
  the height; that is \<open>height / 8\<close> exactly for the heights 64 to 71.
\<close>

theorem init_page_count_is_8:
  "2 * i2c_freq_hz \<noteq> 0 \<Longrightarrow>
     \<exists>s'. OLED_init f_cpu w h fb i2c_freq_hz addr s = Some (OLED_EOK, s') \<and>
          width (oled s') = w \<and> height (oled s') = h \<and>
          num_pages (oled s') = 8 \<and>
          (num_pages (oled s') = h div 8 \<longleftrightarrow> 64 \<le> h \<and> h \<le> 71)"
  using init_ok [of i2c_freq_hz f_cpu w h fb addr s] div8_eq_8 [of h]
  by auto

theorem init_page_count_is_8_witness:
  "(2 :: u32) * 200000 \<noteq> 0 \<and>
   map_option (\<lambda>r. (fst r, num_pages (oled (snd r))))
     (OLED_init 16000000 128 64 (Ptr (CALLER 0) 0) 200000 0x3C boot) = Some (OLED_EOK, 64 div 8)"
proof -
  have h: "(2 :: u32) * 200000 \<noteq> 0" by simp
  from init_page_count_is_8 [OF h, of 16000000 128 64 "Ptr (CALLER 0) 0" "0x3C" boot]
  show ?thesis using h by auto
qed

text \<open>Claim C6 as stated fails: a display of height 32 gets 8 pages, not 4.\<close>

theorem init_page_count_counterexample:
  "map_option (\<lambda>r. num_pages (oled (snd r)))
     (OLED_init 16000000 128 32 (Ptr (CALLER 0) 0) 200000 0x3C boot) = Some 8 \<and>
   (8 :: u8) \<noteq> 32 div 8"
  by (simp add: OLED_init_def I2C_init_def OLED_i2c_tx_shed_def Let_def boot_def split: prod.splits)

section \<open>Drawing\<close>

text \<open>
  Claim C8. For \<open>x < width\<close> and \<open>y < height\<close>, \<open>OLED_put_pixel\<close> returns Ok and
  the bit of the pixel in the frame buffer then equals the requested state; for
  \<open>x \<ge> width\<close> or \<open>y \<ge> height\<close> it returns Bounds and changes nothing.
\<close>

theorem put_pixel_roundtrip:
  "(x < width (oled s) \<and> y < height (oled s) \<longrightarrow>
      fst (OLED_put_pixel x y pixel_state s) = OLED_EOK \<and>
      pixel_bit (snd (OLED_put_pixel x y pixel_state s)) x y = pixel_state) \<and>
   (x \<ge> width (oled s) \<or> y \<ge> height (oled s) \<longrightarrow>
      OLED_put_pixel x y pixel_state s = (OLED_EBOUNDS, s))"
proof -
  have lt: "unat (y AND 7) < 8"
  proof -
    have "y AND 7 \<le> 7" by (rule word_and_le1)
    then have "unat (y AND 7) \<le> unat (7 :: u8)" by (simp only: word_le_nat_alt)
    then show ?thesis by simp
  qed
  obtain r i where p: "pixel_cell (oled s) x y = Ptr r i"
    by (cases "pixel_cell (oled s) x y")
  show ?thesis
    using lt p
    by (auto simp add: OLED_put_pixel_def OLED_put_pixel_inl_def pixel_bit_def Let_def bit_simps)
qed

theorem put_pixel_roundtrip_witness:
  "(3 :: u8) < width (oled (boot\<lparr>oled := (oled boot)\<lparr>width := 128, height := 64\<rparr>\<rparr>)) \<and>
   (10 :: u8) < height (oled (boot\<lparr>oled := (oled boot)\<lparr>width := 128, height := 64\<rparr>\<rparr>)) \<and>
   pixel_bit (snd (OLED_put_pixel 3 10 True (boot\<lparr>oled := (oled boot)\<lparr>width := 128, height := 64\<rparr>\<rparr>))) 3 10 \<and>
   OLED_put_pixel 128 10 True (boot\<lparr>oled := (oled boot)\<lparr>width := 128, height := 64\<rparr>\<rparr>)
     = (OLED_EBOUNDS, boot\<lparr>oled := (oled boot)\<lparr>width := 128, height := 64\<rparr>\<rparr>)"
proof -
  let ?s = "boot\<lparr>oled := (oled boot)\<lparr>width := 128, height := 64\<rparr>\<rparr>"
  have h1: "(3 :: u8) < width (oled ?s) \<and> (10 :: u8) < height (oled ?s)" by simp
  have h2: "(128 :: u8) \<ge> width (oled ?s) \<or> (10 :: u8) \<ge> height (oled ?s)" by simp
  from put_pixel_roundtrip [of 3 ?s 10 True] h1
  have 1: "pixel_bit (snd (OLED_put_pixel 3 10 True ?s)) 3 10" by blast
  from put_pixel_roundtrip [of 128 ?s 10 True] h2
  have 2: "OLED_put_pixel 128 10 True ?s = (OLED_EBOUNDS, ?s)" by blast
  from h1 1 2 show ?thesis by blast
qed

text \<open>
  Claim C7. With flag bits outside the defined set, \<open>params > (OLED_BLACK | OLED_FILL)\<close>,
  \<open>OLED_put_rectangle\<close> and \<open>OLED_put_roundRect\<close> return InvalidParameter at once
  and leave the state, so the frame buffer, unchanged.
\<close>

theorem invalid_params_rejected:
  "params > (OLED_BLACK e OR OLED_FILL e) \<Longrightarrow>
     OLED_put_rectangle e x_from y_from x_to y_to params s = Some (OLED_EPARAMS, s) \<and>
     OLED_put_roundRect e put_line x_from y_from x_to y_to r params s = Some (OLED_EPARAMS, s)"
  by (simp add: OLED_put_rectangle_def OLED_put_roundRect_def)

theorem invalid_params_rejected_witness:
  "(4 :: u16) > (OLED_BLACK enum_1_2 OR OLED_FILL enum_1_2) \<and>
   OLED_put_rectangle enum_1_2 0 0 5 5 4 boot = Some (OLED_EPARAMS, boot) \<and>
   OLED_put_roundRect enum_1_2 (\<lambda>a b c d p s. Some s) 0 0 5 5 2 4 boot = Some (OLED_EPARAMS, boot)"
proof -
  have h: "(4 :: u16) > (OLED_BLACK enum_1_2 OR OLED_FILL enum_1_2)"
    by (simp add: enum_1_2_def)
  from invalid_params_rejected [OF h, of 0 0 5 5 boot "\<lambda>a b c d p s. Some s" 2]
  show ?thesis using h by simp
qed

section \<open>A transaction, event by event\<close>

lemma ptr_add_0 [simp]: "ptr_add p 0 = p"
  by (cases p) simp

lemma ptr_add_add [simp]: "ptr_add (ptr_add p m) n = ptr_add p (m + n)"
  by (cases p) simp

lemma bytes_at_0 [simp]: "bytes_at m p 0 = []"
  by (simp add: bytes_at_def)

lemma bytes_at_Suc: "bytes_at m p (Suc n) = bytes_at m p n @ [load m (ptr_add p n)]"
  by (simp add: bytes_at_def)

lemma length_bytes_at [simp]: "length (bytes_at m p n) = n"
  by (simp add: bytes_at_def)

lemma ticks_pos: "0 < ticks c"
  by (simp add: ticks_def unat_gt_0)

lemma ticks_le: "ticks c \<le> 65536"
proof -
  have "unat c < 2 ^ 16" using unsigned_less [of c] by simp
  then show ?thesis by (simp add: ticks_def)
qed

lemma of_nat_ticks: "(of_nat (ticks c) :: u16) = c"
  by (simp add: ticks_def)

lemma of_nat_below_ticks:
  assumes "0 < k" "k < ticks c"
  shows "(of_nat k :: u16) \<noteq> c"
proof
  assume e: "(of_nat k :: u16) = c"
  from assms ticks_le [of c] have k: "k < 2 ^ 16" by simp
  have "unat c = unat (of_nat k :: u16)" using e by simp
  also have "\<dots> = k" using k by (simp add: unat_of_nat)
  finally have u: "unat c = k" .
  with assms show False by (auto simp add: ticks_def split: if_splits)
qed

lemma ticks_ucast: "ticks (ucast (n :: u8)) = (if n = 0 then 65536 else unat n)"
proof (cases "n = 0")
  case True
  then show ?thesis by (simp add: ticks_def)
next
  case False
  then have "unat n \<noteq> 0" by (simp add: unat_eq_0)
  then have "unat (ucast n :: u16) \<noteq> 0" by (simp add: unat_ucast_8_16)
  then have "(ucast n :: u16) \<noteq> 0" by (simp add: unat_eq_0)
  with False show ?thesis by (simp add: ticks_def unat_ucast_8_16)
qed

lemma events_add:
  "events (m + n) s = (case events m s of None \<Rightarrow> None | Some s' \<Rightarrow> events n s')"
  by (induction m arbitrary: s) (auto split: option.splits)

lemma events_Suc_end:
  "events (Suc n) s = (case events n s of None \<Rightarrow> None | Some s' \<Rightarrow> TWI_vect s')"
  using events_add [of n 1 s] by (auto split: option.splits)

lemma events_Suc_start:
  "TWI_vect s = Some s1 \<Longrightarrow> events (Suc n) s = events n s1"
  by simp

lemma events_chain:
  "events m s = Some s1 \<Longrightarrow> events (m + n) s = events n s1"
  by (simp add: events_add)

text \<open>One event in each of the three transfer states, and in a state that completes.\<close>

lemma step_addr:
  assumes "i2c_state s = I2C_STATE_SLAVEADDR"
  shows "\<exists>s'. TWI_vect s = Some s' \<and>
              i2c_state s' =
                (if i2c_prefix_ptr s = NULL \<and> i2c_data_ptr s = NULL then I2C_STATE_STOP
                 else if i2c_prefix_ptr s = NULL then I2C_STATE_WRITEBYTE
                 else I2C_STATE_WRITEPREFIX) \<and>
              i2c_prefix_ptr s' = i2c_prefix_ptr s \<and>
              i2c_prefix_count s' = i2c_prefix_count s \<and>
              i2c_data_ptr s' = i2c_data_ptr s \<and>
              i2c_data_count s' = i2c_data_count s \<and>
              request s' = request s \<and> mem s' = mem s \<and> oled s' = oled s \<and>
              bus s' = bus s @ [BYTE (i2c_devaddr s)]"
  using assms by (simp add: TWI_vect_def TWI_fsm_def request_def)

lemma step_prefix:
  assumes "i2c_state s = I2C_STATE_WRITEPREFIX"
  shows "\<exists>s'. TWI_vect s = Some s' \<and>
              i2c_state s' =
                (if i2c_prefix_count s - 1 = 0
                 then (if i2c_data_ptr s = NULL then I2C_STATE_STOP else I2C_STATE_WRITEBYTE)
                 else I2C_STATE_WRITEPREFIX) \<and>
              i2c_prefix_ptr s' = ptr_add (i2c_prefix_ptr s) 1 \<and>
              i2c_prefix_count s' = i2c_prefix_count s - 1 \<and>
              i2c_data_ptr s' = i2c_data_ptr s \<and>
              i2c_data_count s' = i2c_data_count s \<and>
              request s' = request s \<and> mem s' = mem s \<and> oled s' = oled s \<and>
              bus s' = bus s @ [BYTE (load (mem s) (i2c_prefix_ptr s))]"
  using assms by (simp add: TWI_vect_def TWI_fsm_def request_def)

lemma step_data:
  assumes "i2c_state s = I2C_STATE_WRITEBYTE"
  shows "\<exists>s'. TWI_vect s = Some s' \<and>
              i2c_state s' =
                (if i2c_data_count s - 1 = 0 then I2C_STATE_STOP else I2C_STATE_WRITEBYTE) \<and>
              i2c_data_ptr s' = ptr_add (i2c_data_ptr s) 1 \<and>
              i2c_data_count s' = i2c_data_count s - 1 \<and>
              request s' = request s \<and> mem s' = mem s \<and> oled s' = oled s \<and>
              bus s' = bus s @ [BYTE (load (mem s) (i2c_data_ptr s))]"
  using assms by (simp add: TWI_vect_def TWI_fsm_def request_def)

lemma step_fire:
  assumes "i2c_state s = I2C_STATE_STOP \<or> i2c_state s = I2C_STATE_IDLE"
  shows "\<exists>s'. TWI_fsm s = (s', True) \<and>
              TWI_vect s = call (i2c_callback s) (i2c_callback_args s) s' \<and>
              i2c_state s' = I2C_STATE_IDLE \<and>
              request s' = request s \<and> mem s' = mem s \<and> oled s' = oled s \<and>
              bus s' = bus s @ [STOP, CALLBACK (i2c_callback s) (i2c_callback_args s)]"
  using assms by (auto simp add: TWI_vect_def TWI_fsm_def request_def)

text \<open>The prefix phase and the data phase: the handler stays in the phase until the
  counter is zero, which takes \<open>ticks\<close> events.\<close>

lemma prefix_run:
  assumes "i2c_state s = I2C_STATE_WRITEPREFIX" and "n < ticks (i2c_prefix_count s)"
  shows "\<exists>s'. events n s = Some s' \<and>
              i2c_state s' = I2C_STATE_WRITEPREFIX \<and>
              i2c_prefix_ptr s' = ptr_add (i2c_prefix_ptr s) n \<and>
              i2c_prefix_count s' = i2c_prefix_count s - of_nat n \<and>
              i2c_data_ptr s' = i2c_data_ptr s \<and>
              i2c_data_count s' = i2c_data_count s \<and>
              request s' = request s \<and> mem s' = mem s \<and> oled s' = oled s \<and>
              bus s' = bus s @ map BYTE (bytes_at (mem s) (i2c_prefix_ptr s) n)"
  using assms(2)
proof (induction n)
  case 0
  then show ?case using assms(1) by simp
next
  case (Suc n)
  then obtain s' where s': "events n s = Some s'"
    "i2c_state s' = I2C_STATE_WRITEPREFIX"
    "i2c_prefix_ptr s' = ptr_add (i2c_prefix_ptr s) n"
    "i2c_prefix_count s' = i2c_prefix_count s - of_nat n"
    "i2c_data_ptr s' = i2c_data_ptr s"
    "i2c_data_count s' = i2c_data_count s"
    "request s' = request s" "mem s' = mem s" "oled s' = oled s"
    "bus s' = bus s @ map BYTE (bytes_at (mem s) (i2c_prefix_ptr s) n)"
    by auto
  have cnt: "i2c_prefix_count s' - 1 = i2c_prefix_count s - of_nat (Suc n)"
    using s'(4) by simp
  from Suc.prems have "(of_nat (Suc n) :: u16) \<noteq> i2c_prefix_count s"
    by (intro of_nat_below_ticks) simp_all
  then have nz: "i2c_prefix_count s' - 1 \<noteq> 0"
    unfolding cnt by simp
  from step_prefix [OF s'(2)] nz obtain s'' where s'': "TWI_vect s' = Some s''"
    "i2c_state s'' = I2C_STATE_WRITEPREFIX"
    "i2c_prefix_ptr s'' = ptr_add (i2c_prefix_ptr s') 1"
    "i2c_prefix_count s'' = i2c_prefix_count s' - 1"
    "i2c_data_ptr s'' = i2c_data_ptr s'"
    "i2c_data_count s'' = i2c_data_count s'"
    "request s'' = request s'" "mem s'' = mem s'" "oled s'' = oled s'"
    "bus s'' = bus s' @ [BYTE (load (mem s') (i2c_prefix_ptr s'))]"
    by auto
  have ev: "events (Suc n) s = Some s''"
    by (simp only: events_Suc_end s'(1) s''(1) option.case)
  show ?case
    unfolding ev using s' s'' cnt by (simp add: bytes_at_Suc)
qed

lemma prefix_done:
  assumes "i2c_state s = I2C_STATE_WRITEPREFIX"
  shows "\<exists>s'. events (ticks (i2c_prefix_count s)) s = Some s' \<and>
              i2c_state s' = (if i2c_data_ptr s = NULL then I2C_STATE_STOP else I2C_STATE_WRITEBYTE) \<and>
              i2c_data_ptr s' = i2c_data_ptr s \<and>
              i2c_data_count s' = i2c_data_count s \<and>
              request s' = request s \<and> mem s' = mem s \<and> oled s' = oled s \<and>
              bus s' = bus s @ map BYTE (bytes_at (mem s) (i2c_prefix_ptr s) (ticks (i2c_prefix_count s)))"
proof -
  obtain n where n: "ticks (i2c_prefix_count s) = Suc n"
    using ticks_pos [of "i2c_prefix_count s"] by (cases "ticks (i2c_prefix_count s)") auto
  then have "n < ticks (i2c_prefix_count s)" by simp
  from prefix_run [OF assms this]
  obtain s' where s': "events n s = Some s'"
    "i2c_state s' = I2C_STATE_WRITEPREFIX"
    "i2c_prefix_ptr s' = ptr_add (i2c_prefix_ptr s) n"
    "i2c_prefix_count s' = i2c_prefix_count s - of_nat n"
    "i2c_data_ptr s' = i2c_data_ptr s"
    "i2c_data_count s' = i2c_data_count s"
    "request s' = request s" "mem s' = mem s" "oled s' = oled s"
    "bus s' = bus s @ map BYTE (bytes_at (mem s) (i2c_prefix_ptr s) n)"
    by auto
  have cnt: "i2c_prefix_count s' - 1 = i2c_prefix_count s - of_nat (Suc n)"
    using s'(4) by simp
  have "(of_nat (Suc n) :: u16) = i2c_prefix_count s"
    using of_nat_ticks [of "i2c_prefix_count s"] unfolding n .
  then have z: "i2c_prefix_count s' - 1 = 0"
    unfolding cnt by simp
  from step_prefix [OF s'(2)] z obtain s'' where s'': "TWI_vect s' = Some s''"
    "i2c_state s'' = (if i2c_data_ptr s' = NULL then I2C_STATE_STOP else I2C_STATE_WRITEBYTE)"
    "i2c_data_ptr s'' = i2c_data_ptr s'"
    "i2c_data_count s'' = i2c_data_count s'"
    "request s'' = request s'" "mem s'' = mem s'" "oled s'' = oled s'"
    "bus s'' = bus s' @ [BYTE (load (mem s') (i2c_prefix_ptr s'))]"
    by auto
  have ev: "events (Suc n) s = Some s''"
    by (simp only: events_Suc_end s'(1) s''(1) option.case)
  show ?thesis
    unfolding n ev using s' s'' by (simp add: bytes_at_Suc)
qed

lemma data_run:
  assumes "i2c_state s = I2C_STATE_WRITEBYTE" and "n < ticks (i2c_data_count s)"
  shows "\<exists>s'. events n s = Some s' \<and>
              i2c_state s' = I2C_STATE_WRITEBYTE \<and>
              i2c_data_ptr s' = ptr_add (i2c_data_ptr s) n \<and>
              i2c_data_count s' = i2c_data_count s - of_nat n \<and>
              request s' = request s \<and> mem s' = mem s \<and> oled s' = oled s \<and>
              bus s' = bus s @ map BYTE (bytes_at (mem s) (i2c_data_ptr s) n)"
  using assms(2)
proof (induction n)
  case 0
  then show ?case using assms(1) by simp
next
  case (Suc n)
  then obtain s' where s': "events n s = Some s'"
    "i2c_state s' = I2C_STATE_WRITEBYTE"
    "i2c_data_ptr s' = ptr_add (i2c_data_ptr s) n"
    "i2c_data_count s' = i2c_data_count s - of_nat n"
    "request s' = request s" "mem s' = mem s" "oled s' = oled s"
    "bus s' = bus s @ map BYTE (bytes_at (mem s) (i2c_data_ptr s) n)"
    by auto
  have cnt: "i2c_data_count s' - 1 = i2c_data_count s - of_nat (Suc n)"
    using s'(4) by simp
  from Suc.prems have "(of_nat (Suc n) :: u16) \<noteq> i2c_data_count s"
    by (intro of_nat_below_ticks) simp_all
  then have nz: "i2c_data_count s' - 1 \<noteq> 0"
    unfolding cnt by simp
  from step_data [OF s'(2)] nz obtain s'' where s'': "TWI_vect s' = Some s''"
    "i2c_state s'' = I2C_STATE_WRITEBYTE"
    "i2c_data_ptr s'' = ptr_add (i2c_data_ptr s') 1"
    "i2c_data_count s'' = i2c_data_count s' - 1"
    "request s'' = request s'" "mem s'' = mem s'" "oled s'' = oled s'"
    "bus s'' = bus s' @ [BYTE (load (mem s') (i2c_data_ptr s'))]"
    by auto
  have ev: "events (Suc n) s = Some s''"
    by (simp only: events_Suc_end s'(1) s''(1) option.case)
  show ?case
    unfolding ev using s' s'' cnt by (simp add: bytes_at_Suc)
qed

lemma data_done:
  assumes "i2c_state s = I2C_STATE_WRITEBYTE"
  shows "\<exists>s'. events (ticks (i2c_data_count s)) s = Some s' \<and>
              i2c_state s' = I2C_STATE_STOP \<and>
              request s' = request s \<and> mem s' = mem s \<and> oled s' = oled s \<and>
              bus s' = bus s @ map BYTE (bytes_at (mem s) (i2c_data_ptr s) (ticks (i2c_data_count s)))"
proof -
  obtain n where n: "ticks (i2c_data_count s) = Suc n"
    using ticks_pos [of "i2c_data_count s"] by (cases "ticks (i2c_data_count s)") auto
  then have "n < ticks (i2c_data_count s)" by simp
  from data_run [OF assms this]
  obtain s' where s': "events n s = Some s'"
    "i2c_state s' = I2C_STATE_WRITEBYTE"
    "i2c_data_ptr s' = ptr_add (i2c_data_ptr s) n"
    "i2c_data_count s' = i2c_data_count s - of_nat n"
    "request s' = request s" "mem s' = mem s" "oled s' = oled s"
    "bus s' = bus s @ map BYTE (bytes_at (mem s) (i2c_data_ptr s) n)"
    by auto
  have cnt: "i2c_data_count s' - 1 = i2c_data_count s - of_nat (Suc n)"
    using s'(4) by simp
  have "(of_nat (Suc n) :: u16) = i2c_data_count s"
    using of_nat_ticks [of "i2c_data_count s"] unfolding n .
  then have z: "i2c_data_count s' - 1 = 0"
    unfolding cnt by simp
  from step_data [OF s'(2)] z obtain s'' where s'': "TWI_vect s' = Some s''"
    "i2c_state s'' = I2C_STATE_STOP"
    "request s'' = request s'" "mem s'' = mem s'" "oled s'' = oled s'"
    "bus s'' = bus s' @ [BYTE (load (mem s') (i2c_data_ptr s'))]"
    by auto
  have ev: "events (Suc n) s = Some s''"
    by (simp only: events_Suc_end s'(1) s''(1) option.case)
  show ?thesis
    unfolding n ev using s' s'' by (simp add: bytes_at_Suc)
qed

text \<open>From the address event to the state Stop.\<close>

lemma transaction_run:
  assumes "i2c_state s = I2C_STATE_SLAVEADDR"
  shows "\<exists>s'. events (1 + prefix_events s + data_events s) s = Some s' \<and>
              i2c_state s' = I2C_STATE_STOP \<and>
              request s' = request s \<and> mem s' = mem s \<and> oled s' = oled s \<and>
              bus s' = bus s @ BYTE (i2c_devaddr s)
                # map BYTE (bytes_at (mem s) (i2c_prefix_ptr s) (prefix_events s))
                @ map BYTE (bytes_at (mem s) (i2c_data_ptr s) (data_events s))"
proof -
  from step_addr [OF assms] obtain s1 where s1: "TWI_vect s = Some s1"
    "i2c_state s1 =
       (if i2c_prefix_ptr s = NULL \<and> i2c_data_ptr s = NULL then I2C_STATE_STOP
        else if i2c_prefix_ptr s = NULL then I2C_STATE_WRITEBYTE
        else I2C_STATE_WRITEPREFIX)"
    "i2c_prefix_ptr s1 = i2c_prefix_ptr s"
    "i2c_prefix_count s1 = i2c_prefix_count s"
    "i2c_data_ptr s1 = i2c_data_ptr s"
    "i2c_data_count s1 = i2c_data_count s"
    "request s1 = request s" "mem s1 = mem s" "oled s1 = oled s"
    "bus s1 = bus s @ [BYTE (i2c_devaddr s)]"
    by auto
  have ev1: "events (1 + prefix_events s + data_events s) s
               = events (prefix_events s + data_events s) s1"
    using s1(1) by simp
  show ?thesis
  proof (cases "i2c_prefix_ptr s = NULL")
    case pn: True
    show ?thesis
    proof (cases "i2c_data_ptr s = NULL")
      case True
      with pn s1 show ?thesis
        by (simp add: prefix_events_def data_events_def)
    next
      case False
      with pn s1 have st: "i2c_state s1 = I2C_STATE_WRITEBYTE" by simp
      from data_done [OF st] obtain s2 where s2:
        "events (ticks (i2c_data_count s1)) s1 = Some s2"
        "i2c_state s2 = I2C_STATE_STOP"
        "request s2 = request s1" "mem s2 = mem s1" "oled s2 = oled s1"
        "bus s2 = bus s1 @ map BYTE (bytes_at (mem s1) (i2c_data_ptr s1) (ticks (i2c_data_count s1)))"
        by auto
      have "events (1 + prefix_events s + data_events s) s = Some s2"
        unfolding ev1 using pn False s2(1) s1(6) by (simp add: prefix_events_def data_events_def)
      then show ?thesis
        using pn False s1 s2 by (simp add: prefix_events_def data_events_def)
    qed
  next
    case pp: False
    with s1 have st: "i2c_state s1 = I2C_STATE_WRITEPREFIX" by simp
    from prefix_done [OF st] obtain s2 where s2:
      "events (ticks (i2c_prefix_count s1)) s1 = Some s2"
      "i2c_state s2 = (if i2c_data_ptr s1 = NULL then I2C_STATE_STOP else I2C_STATE_WRITEBYTE)"
      "i2c_data_ptr s2 = i2c_data_ptr s1"
      "i2c_data_count s2 = i2c_data_count s1"
      "request s2 = request s1" "mem s2 = mem s1" "oled s2 = oled s1"
      "bus s2 = bus s1 @ map BYTE (bytes_at (mem s1) (i2c_prefix_ptr s1) (ticks (i2c_prefix_count s1)))"
      by auto
    have pe: "prefix_events s = ticks (i2c_prefix_count s1)"
      using pp s1(4) by (simp add: prefix_events_def)
    have "events (prefix_events s + data_events s) s1 = events (data_events s) s2"
      unfolding pe using s2(1) by (rule events_chain)
    with ev1 have ev2: "events (1 + prefix_events s + data_events s) s = events (data_events s) s2"
      by simp
    show ?thesis
    proof (cases "i2c_data_ptr s = NULL")
      case True
      then have "data_events s = 0" by (simp add: data_events_def)
      with ev2 have "events (1 + prefix_events s + data_events s) s = Some s2" by simp
      then show ?thesis
        using True s1 s2 pe \<open>data_events s = 0\<close> by simp
    next
      case False
      with s2 s1 have st2: "i2c_state s2 = I2C_STATE_WRITEBYTE" by simp
      from data_done [OF st2] obtain s3 where s3:
        "events (ticks (i2c_data_count s2)) s2 = Some s3"
        "i2c_state s3 = I2C_STATE_STOP"
        "request s3 = request s2" "mem s3 = mem s2" "oled s3 = oled s2"
        "bus s3 = bus s2 @ map BYTE (bytes_at (mem s2) (i2c_data_ptr s2) (ticks (i2c_data_count s2)))"
        by auto
      have de: "data_events s = ticks (i2c_data_count s2)"
        using False s1(6) s2(4) by (simp add: data_events_def)
      have "events (1 + prefix_events s + data_events s) s = Some s3"
        using ev2 s3(1) de by simp
      then show ?thesis
        using s1 s2 s3 pe de by simp
    qed
  qed
qed

text \<open>Callbacks are counted by the trace. A run in which none was called went through
  transfer states only and left memory, display object and request alone.\<close>

lemma fired_append: "bus s' = bus s @ xs \<Longrightarrow> fired s' = fired s + length (filter is_callback xs)"
  by (simp add: fired_def)

lemma filter_callback_bytes [simp]: "filter is_callback (map BYTE xs) = []"
  by (induction xs) simp_all

lemma spin_fired:
  "spin_tx_shed a p pl d dl c ca ff s = Some s' \<Longrightarrow> bus s = bus s0 \<Longrightarrow> fired s' = fired s0"
  by (auto simp add: spin_tx_shed_def OLED_i2c_tx_shed_def fired_def split: if_splits)

lemma call_fired: "call c a s = Some s' \<Longrightarrow> fired s' = fired s"
proof (cases c)
  case CBK_NULL
  then show "call c a s = Some s' \<Longrightarrow> fired s' = fired s" by simp
next
  case OLED_cbk_empty
  then show "call c a s = Some s' \<Longrightarrow> fired s' = fired s" by simp
next
  case OLED_cbk_unlock
  then show "call c a s = Some s' \<Longrightarrow> fired s' = fired s"
    by (auto simp add: OLED_unlock_def fired_def split: cbk_arg.splits)
next
  case OLED_cbk_writepage
  then show "call c a s = Some s' \<Longrightarrow> fired s' = fired s"
    by (auto simp add: cbk_writepage_def OLED_unlock_def Let_def fired_def
        split: cbk_arg.splits if_splits elim!: spin_fired [unfolded fired_def])
next
  case OLED_cbk_setwritepage
  then show "call c a s = Some s' \<Longrightarrow> fired s' = fired s"
    by (auto simp add: cbk_setwritepage_def Let_def fired_def
        split: cbk_arg.splits elim!: spin_fired [unfolded fired_def])
qed

lemma step_quiet:
  assumes "i2c_state s \<noteq> I2C_STATE_STOP" "i2c_state s \<noteq> I2C_STATE_IDLE"
  shows "\<exists>s'. TWI_vect s = Some s' \<and> fired s' = fired s \<and>
              request s' = request s \<and> mem s' = mem s \<and> oled s' = oled s"
proof (cases "i2c_state s")
  case I2C_STATE_SLAVEADDR
  from step_addr [OF this] show ?thesis by (auto simp add: fired_def)
next
  case I2C_STATE_WRITEPREFIX
  from step_prefix [OF this] show ?thesis by (auto simp add: fired_def)
next
  case I2C_STATE_WRITEBYTE
  from step_data [OF this] show ?thesis by (auto simp add: fired_def)
qed (use assms in simp_all)

lemma vect_fired:
  assumes "TWI_vect s = Some s'"
  shows "fired s' =
           (if i2c_state s = I2C_STATE_STOP \<or> i2c_state s = I2C_STATE_IDLE
            then fired s + 1 else fired s)"
proof (cases "i2c_state s = I2C_STATE_STOP \<or> i2c_state s = I2C_STATE_IDLE")
  case True
  from step_fire [OF True] obtain s1 where s1:
    "TWI_vect s = call (i2c_callback s) (i2c_callback_args s) s1"
    "bus s1 = bus s @ [STOP, CALLBACK (i2c_callback s) (i2c_callback_args s)]"
    by auto
  from s1(1) assms have "fired s' = fired s1" by (simp add: call_fired)
  also have "\<dots> = fired s + 1" using s1(2) by (simp add: fired_def)
  finally show ?thesis using True by simp
next
  case False
  with step_quiet [of s] assms show ?thesis by auto
qed

lemma events_fired_mono: "events n s = Some s' \<Longrightarrow> fired s \<le> fired s'"
proof (induction n arbitrary: s)
  case 0
  then show ?case by simp
next
  case (Suc n)
  then obtain s1 where s1: "TWI_vect s = Some s1" "events n s1 = Some s'"
    by (auto split: option.splits)
  from vect_fired [OF s1(1)] have "fired s \<le> fired s1" by (simp split: if_splits)
  with Suc.IH [OF s1(2)] show ?case by simp
qed

lemma quiet_run:
  assumes "events n s = Some s'" and "fired s' = fired s" and "k \<le> n"
  shows "\<exists>sk. events k s = Some sk \<and> fired sk = fired s \<and>
              request sk = request s \<and> mem sk = mem s \<and> oled sk = oled s \<and>
              (k < n \<longrightarrow> i2c_state sk \<noteq> I2C_STATE_STOP \<and> i2c_state sk \<noteq> I2C_STATE_IDLE)"
  using assms
proof (induction n arbitrary: s' k)
  case 0
  then show ?case by simp
next
  case (Suc n)
  have "(case events n s of None \<Rightarrow> None | Some sn \<Rightarrow> TWI_vect sn) = Some s'"
    using Suc.prems(1) by (simp only: events_Suc_end)
  then obtain sn where sn: "events n s = Some sn" "TWI_vect sn = Some s'"
    by (cases "events n s") auto
  from events_fired_mono [OF sn(1)] vect_fired [OF sn(2)] Suc.prems(2)
  have fn: "fired sn = fired s"
    and qn: "i2c_state sn \<noteq> I2C_STATE_STOP \<and> i2c_state sn \<noteq> I2C_STATE_IDLE"
    by (auto split: if_splits)
  from Suc.IH [OF sn(1) fn, of n] sn(1)
  have n_ok: "request sn = request s \<and> mem sn = mem s \<and> oled sn = oled s"
    by auto
  show ?case
  proof (cases "k \<le> n")
    case True
    from Suc.IH [OF sn(1) fn True] obtain sk where sk: "events k s = Some sk"
      "fired sk = fired s" "request sk = request s" "mem sk = mem s" "oled sk = oled s"
      "k < n \<longrightarrow> i2c_state sk \<noteq> I2C_STATE_STOP \<and> i2c_state sk \<noteq> I2C_STATE_IDLE"
      by auto
    have "i2c_state sk \<noteq> I2C_STATE_STOP \<and> i2c_state sk \<noteq> I2C_STATE_IDLE"
    proof (cases "k < n")
      case True
      with sk show ?thesis by simp
    next
      case False
      with \<open>k \<le> n\<close> have "k = n" by simp
      with sk(1) sn(1) qn show ?thesis by simp
    qed
    with sk show ?thesis by auto
  next
    case False
    with Suc.prems(3) have k: "k = Suc n" by simp
    from step_quiet [of sn] qn sn(2)
    have "request s' = request sn \<and> mem s' = mem sn \<and> oled s' = oled sn" by auto
    with n_ok Suc.prems(1,2) show ?thesis unfolding k by simp
  qed
qed

text \<open>A submitted transaction, from its first event to the call of its callback.\<close>

lemma run_to_callback:
  assumes st: "i2c_state t = I2C_STATE_SLAVEADDR"
  defines "n \<equiv> prefix_events t + data_events t"
  shows "k \<le> Suc n \<Longrightarrow> \<exists>tk. events k t = Some tk \<and> fired tk = fired t \<and>
            mem tk = mem t \<and> oled tk = oled t \<and>
            i2c_state tk \<noteq> I2C_STATE_IDLE \<and> (k \<le> n \<longrightarrow> i2c_state tk \<noteq> I2C_STATE_STOP)"
    and "\<exists>tn t'. events (Suc n) t = Some tn \<and> i2c_state tn = I2C_STATE_STOP \<and>
            TWI_fsm tn = (t', True) \<and>
            events (Suc (Suc n)) t = call (i2c_callback t) (i2c_callback_args t) t' \<and>
            i2c_state t' = I2C_STATE_IDLE \<and> fired t' = fired t + 1 \<and>
            mem t' = mem t \<and> oled t' = oled t \<and> request t' = request t \<and>
            bus t' = bus t @ BYTE (i2c_devaddr t)
              # map BYTE (bytes_at (mem t) (i2c_prefix_ptr t) (prefix_events t))
              @ map BYTE (bytes_at (mem t) (i2c_data_ptr t) (data_events t))
              @ [STOP, CALLBACK (i2c_callback t) (i2c_callback_args t)]"
proof -
  from transaction_run [OF st] obtain tn where tn:
    "events (Suc n) t = Some tn" "i2c_state tn = I2C_STATE_STOP"
    "request tn = request t" "mem tn = mem t" "oled tn = oled t"
    "bus tn = bus t @ BYTE (i2c_devaddr t)
       # map BYTE (bytes_at (mem t) (i2c_prefix_ptr t) (prefix_events t))
       @ map BYTE (bytes_at (mem t) (i2c_data_ptr t) (data_events t))"
    by (auto simp add: n_def)
  have ftn: "fired tn = fired t" using tn(6) by (simp add: fired_def)
  {
    assume k: "k \<le> Suc n"
    from quiet_run [OF tn(1) ftn k] obtain tk where tk: "events k t = Some tk"
      "fired tk = fired t" "mem tk = mem t" "oled tk = oled t"
      "k < Suc n \<longrightarrow> i2c_state tk \<noteq> I2C_STATE_STOP \<and> i2c_state tk \<noteq> I2C_STATE_IDLE"
      by auto
    have "i2c_state tk \<noteq> I2C_STATE_IDLE"
    proof (cases "k < Suc n")
      case True
      with tk show ?thesis by simp
    next
      case False
      with k have "k = Suc n" by simp
      with tk(1) tn(1,2) show ?thesis by simp
    qed
    with tk show "\<exists>tk. events k t = Some tk \<and> fired tk = fired t \<and>
            mem tk = mem t \<and> oled tk = oled t \<and>
            i2c_state tk \<noteq> I2C_STATE_IDLE \<and> (k \<le> n \<longrightarrow> i2c_state tk \<noteq> I2C_STATE_STOP)"
      by auto
  }
  from step_fire [of tn] tn(2) obtain t' where t': "TWI_fsm tn = (t', True)"
    "TWI_vect tn = call (i2c_callback tn) (i2c_callback_args tn) t'"
    "i2c_state t' = I2C_STATE_IDLE" "request t' = request tn" "mem t' = mem tn" "oled t' = oled tn"
    "bus t' = bus tn @ [STOP, CALLBACK (i2c_callback tn) (i2c_callback_args tn)]"
    by auto
  have cb: "i2c_callback tn = i2c_callback t" "i2c_callback_args tn = i2c_callback_args t"
    using tn(3) by (simp_all add: request_def)
  have ev: "events (Suc (Suc n)) t = call (i2c_callback t) (i2c_callback_args t) t'"
    using tn(1) t'(2) cb by (simp only: events_Suc_end [of "Suc n"] option.case)
  have b: "bus t' = bus t @ BYTE (i2c_devaddr t)
              # map BYTE (bytes_at (mem t) (i2c_prefix_ptr t) (prefix_events t))
              @ map BYTE (bytes_at (mem t) (i2c_data_ptr t) (data_events t))
              @ [STOP, CALLBACK (i2c_callback t) (i2c_callback_args t)]"
    using t'(7) tn(6) cb by simp
  then have "fired t' = fired t + 1" by (simp add: fired_def)
  with tn t' ev b
  show "\<exists>tn t'. events (Suc n) t = Some tn \<and> i2c_state tn = I2C_STATE_STOP \<and>
            TWI_fsm tn = (t', True) \<and>
            events (Suc (Suc n)) t = call (i2c_callback t) (i2c_callback_args t) t' \<and>
            i2c_state t' = I2C_STATE_IDLE \<and> fired t' = fired t + 1 \<and>
            mem t' = mem t \<and> oled t' = oled t \<and> request t' = request t \<and>
            bus t' = bus t @ BYTE (i2c_devaddr t)
              # map BYTE (bytes_at (mem t) (i2c_prefix_ptr t) (prefix_events t))
              @ map BYTE (bytes_at (mem t) (i2c_data_ptr t) (data_events t))
              @ [STOP, CALLBACK (i2c_callback t) (i2c_callback_args t)]"
    by auto
qed

text \<open>An accepted transaction, from submission to the call of its callback.\<close>

lemma tx_completion:
  fixes addr :: u8 and prefix bytes :: ptr and prefix_len :: u8 and bytes_len :: u16
    and end_cbk :: callback and cbk_args :: cbk_arg and fastfail :: bool
  assumes idle: "i2c_state s = I2C_STATE_IDLE"
  defines "s1 \<equiv> snd (OLED_i2c_tx_shed addr prefix prefix_len bytes bytes_len end_cbk cbk_args fastfail s)"
  defines "n \<equiv> prefix_events s1 + data_events s1"
  shows "OLED_i2c_tx_shed addr prefix prefix_len bytes bytes_len end_cbk cbk_args fastfail s = (True, s1)"
    and "k \<le> Suc n \<Longrightarrow> \<exists>sk. events k s1 = Some sk \<and> fired sk = fired s \<and>
            mem sk = mem s \<and> oled sk = oled s \<and>
            i2c_state sk \<noteq> I2C_STATE_IDLE \<and> (k \<le> n \<longrightarrow> i2c_state sk \<noteq> I2C_STATE_STOP)"
    and "\<exists>sn s'. events (Suc n) s1 = Some sn \<and> i2c_state sn = I2C_STATE_STOP \<and>
            TWI_fsm sn = (s', True) \<and>
            events (Suc (Suc n)) s1 = call end_cbk cbk_args s' \<and>
            i2c_state s' = I2C_STATE_IDLE \<and> fired s' = fired s + 1 \<and>
            mem s' = mem s \<and> oled s' = oled s \<and>
            bus s' = bus s @ [START, BYTE (push_bit 1 addr)]
              @ map BYTE (bytes_at (mem s) prefix (prefix_events s1))
              @ map BYTE (bytes_at (mem s) bytes (data_events s1))
              @ [STOP, CALLBACK end_cbk cbk_args]"
proof -
  show "OLED_i2c_tx_shed addr prefix prefix_len bytes bytes_len end_cbk cbk_args fastfail s = (True, s1)"
    using idle by (simp add: s1_def OLED_i2c_tx_shed_def)
  have f1: "i2c_state s1 = I2C_STATE_SLAVEADDR" "i2c_prefix_ptr s1 = prefix" "i2c_data_ptr s1 = bytes"
    "i2c_devaddr s1 = push_bit 1 addr" "i2c_callback s1 = end_cbk" "i2c_callback_args s1 = cbk_args"
    "mem s1 = mem s" "oled s1 = oled s" "bus s1 = bus s @ [START]"
    using idle by (simp_all add: s1_def OLED_i2c_tx_shed_def)
  have fs1: "fired s1 = fired s" using f1(9) by (simp add: fired_def)
  note r = run_to_callback [OF f1(1), folded n_def]
  {
    assume "k \<le> Suc n"
    from r(1) [OF this] fs1 f1(7,8)
    show "\<exists>sk. events k s1 = Some sk \<and> fired sk = fired s \<and>
            mem sk = mem s \<and> oled sk = oled s \<and>
            i2c_state sk \<noteq> I2C_STATE_IDLE \<and> (k \<le> n \<longrightarrow> i2c_state sk \<noteq> I2C_STATE_STOP)"
      by simp
  }
  from r(2) fs1 f1
  show "\<exists>sn s'. events (Suc n) s1 = Some sn \<and> i2c_state sn = I2C_STATE_STOP \<and>
            TWI_fsm sn = (s', True) \<and>
            events (Suc (Suc n)) s1 = call end_cbk cbk_args s' \<and>
            i2c_state s' = I2C_STATE_IDLE \<and> fired s' = fired s + 1 \<and>
            mem s' = mem s \<and> oled s' = oled s \<and>
            bus s' = bus s @ [START, BYTE (push_bit 1 addr)]
              @ map BYTE (bytes_at (mem s) prefix (prefix_events s1))
              @ map BYTE (bytes_at (mem s) bytes (data_events s1))
              @ [STOP, CALLBACK end_cbk cbk_args]"
    by (auto simp del: events.simps)
qed

lemma events_of_submission:
  assumes "i2c_state s = I2C_STATE_IDLE"
  shows "prefix_events (snd (OLED_i2c_tx_shed addr prefix prefix_len bytes bytes_len end_cbk cbk_args fastfail s))
           = (if prefix = NULL then 0 else if prefix_len = 0 then 65536 else unat prefix_len)"
    and "data_events (snd (OLED_i2c_tx_shed addr prefix prefix_len bytes bytes_len end_cbk cbk_args fastfail s))
           = (if bytes = NULL then 0 else if bytes_len = 0 then 65536 else unat bytes_len)"
  using assms
  by (simp_all add: prefix_events_def data_events_def OLED_i2c_tx_shed_def ticks_ucast)
     (simp add: ticks_def)

text \<open>
  Claim C2, as amended. For an accepted transaction with prefix length \<open>p\<close> and data
  length \<open>d\<close> in which each pointer is null exactly when its length is 0: during the
  first \<open>p + d + 1\<close> events no callback is called and the bus is not Idle; the
  \<open>(p + d + 2)\<close>-th event (after one address event, \<open>p\<close> prefix bytes and \<open>d\<close>
  data bytes) sets the bus state to Idle and calls the completion callback, once. The
  trace of the transaction is start, address, prefix bytes, data bytes, stop, callback.
  After that event the bus is Idle when the callback is one that submits nothing
  (\<open>OLED_cbk_empty\<close>, \<open>OLED_cbk_unlock\<close>).
\<close>

theorem transaction_fires_once:
  fixes addr :: u8 and prefix bytes :: ptr and prefix_len :: u8 and bytes_len :: u16
    and end_cbk :: callback and cbk_args :: cbk_arg and fastfail :: bool
  assumes idle: "i2c_state s = I2C_STATE_IDLE"
    and wfp: "(prefix = NULL) = (prefix_len = 0)"
    and wfd: "(bytes = NULL) = (bytes_len = 0)"
  shows "\<exists>s1. OLED_i2c_tx_shed addr prefix prefix_len bytes bytes_len end_cbk cbk_args fastfail s = (True, s1) \<and>
      (\<forall>k \<le> unat prefix_len + unat bytes_len + 1.
          \<exists>sk. events k s1 = Some sk \<and> fired sk = fired s \<and> i2c_state sk \<noteq> I2C_STATE_IDLE) \<and>
      (\<exists>sn s'. events (unat prefix_len + unat bytes_len + 1) s1 = Some sn \<and>
          TWI_fsm sn = (s', True) \<and>
          events (unat prefix_len + unat bytes_len + 2) s1 = call end_cbk cbk_args s' \<and>
          i2c_state s' = I2C_STATE_IDLE \<and> fired s' = fired s + 1 \<and>
          bus s' = bus s @ [START, BYTE (push_bit 1 addr)]
            @ map BYTE (bytes_at (mem s) prefix (unat prefix_len))
            @ map BYTE (bytes_at (mem s) bytes (unat bytes_len))
            @ [STOP, CALLBACK end_cbk cbk_args] \<and>
          (end_cbk = OLED_cbk_empty \<or> end_cbk = OLED_cbk_unlock \<and> cbk_args = ARG_OLED \<longrightarrow>
             (\<exists>sf. events (unat prefix_len + unat bytes_len + 2) s1 = Some sf \<and>
                   i2c_state sf = I2C_STATE_IDLE \<and> fired sf = fired s + 1)))"
proof -
  let ?s1 = "snd (OLED_i2c_tx_shed addr prefix prefix_len bytes bytes_len end_cbk cbk_args fastfail s)"
  have np: "prefix_events ?s1 = unat prefix_len"
    using events_of_submission(1) [OF idle, where addr = addr and prefix = prefix and prefix_len = prefix_len
      and bytes = bytes and bytes_len = bytes_len and end_cbk = end_cbk and cbk_args = cbk_args
      and fastfail = fastfail] wfp
    by auto
  have nd: "data_events ?s1 = unat bytes_len"
    using events_of_submission(2) [OF idle, where addr = addr and prefix = prefix and prefix_len = prefix_len
      and bytes = bytes and bytes_len = bytes_len and end_cbk = end_cbk and cbk_args = cbk_args
      and fastfail = fastfail] wfd
    by auto
  note c = tx_completion [OF idle, where addr = addr and prefix = prefix and prefix_len = prefix_len
      and bytes = bytes and bytes_len = bytes_len and end_cbk = end_cbk and cbk_args = cbk_args
      and fastfail = fastfail, unfolded np nd]
  have during: "\<forall>k \<le> unat prefix_len + unat bytes_len + 1.
          \<exists>sk. events k ?s1 = Some sk \<and> fired sk = fired s \<and> i2c_state sk \<noteq> I2C_STATE_IDLE"
  proof (intro allI impI)
    fix k assume "k \<le> unat prefix_len + unat bytes_len + 1"
    then have "k \<le> Suc (unat prefix_len + unat bytes_len)" by simp
    from c(2) [OF this] show "\<exists>sk. events k ?s1 = Some sk \<and> fired sk = fired s \<and> i2c_state sk \<noteq> I2C_STATE_IDLE"
      by auto
  qed
  from c(3) obtain sn s' where f: "events (Suc (unat prefix_len + unat bytes_len)) ?s1 = Some sn"
    "TWI_fsm sn = (s', True)"
    "events (Suc (Suc (unat prefix_len + unat bytes_len))) ?s1 = call end_cbk cbk_args s'"
    "i2c_state s' = I2C_STATE_IDLE" "fired s' = fired s + 1"
    "bus s' = bus s @ [START, BYTE (push_bit 1 addr)]
            @ map BYTE (bytes_at (mem s) prefix (unat prefix_len))
            @ map BYTE (bytes_at (mem s) bytes (unat bytes_len))
            @ [STOP, CALLBACK end_cbk cbk_args]"
    by auto
  have last: "end_cbk = OLED_cbk_empty \<or> end_cbk = OLED_cbk_unlock \<and> cbk_args = ARG_OLED \<longrightarrow>
             (\<exists>sf. events (unat prefix_len + unat bytes_len + 2) ?s1 = Some sf \<and>
                   i2c_state sf = I2C_STATE_IDLE \<and> fired sf = fired s + 1)"
  proof
    assume a: "end_cbk = OLED_cbk_empty \<or> end_cbk = OLED_cbk_unlock \<and> cbk_args = ARG_OLED"
    then obtain sf where sf: "call end_cbk cbk_args s' = Some sf" "i2c_state sf = i2c_state s'"
      by (auto simp add: OLED_unlock_def)
    from call_fired [OF sf(1)] f(5) have "fired sf = fired s + 1" by simp
    with sf f(3,4) show "\<exists>sf. events (unat prefix_len + unat bytes_len + 2) ?s1 = Some sf \<and>
                   i2c_state sf = I2C_STATE_IDLE \<and> fired sf = fired s + 1"
      by simp
  qed
  have e1: "unat prefix_len + unat bytes_len + 1 = Suc (unat prefix_len + unat bytes_len)"
    and e2: "unat prefix_len + unat bytes_len + 2 = Suc (Suc (unat prefix_len + unat bytes_len))"
    by simp_all
  show ?thesis
    apply (rule exI [of _ ?s1])
    apply (intro conjI)
      apply (rule c(1))
     apply (rule during)
    apply (rule exI [of _ sn], rule exI [of _ s'])
    using f last unfolding e1 e2
    apply simp
    done
qed

theorem transaction_fires_once_witness:
  "i2c_state boot = I2C_STATE_IDLE \<and>
   ((Ptr I2C_CMD_INIT 0 = NULL) = ((12 :: u8) = 0)) \<and> ((NULL = NULL) = ((0 :: u16) = 0)) \<and>
   map_option (\<lambda>s. (i2c_state s, fired s))
     (events 14 (snd (OLED_i2c_tx_shed 0x3C (Ptr I2C_CMD_INIT 0) 12 NULL 0 OLED_cbk_empty ARG_NULL True boot)))
     = Some (I2C_STATE_IDLE, 1)"
proof -
  let ?t = "OLED_i2c_tx_shed 0x3C (Ptr I2C_CMD_INIT 0) 12 NULL 0 OLED_cbk_empty ARG_NULL True boot"
  have h1: "i2c_state boot = I2C_STATE_IDLE" by (simp add: boot_def)
  have h2: "(Ptr I2C_CMD_INIT 0 = NULL) = ((12 :: u8) = 0)" by (simp add: NULL_def)
  have h3: "(NULL = NULL) = ((0 :: u16) = 0)" by simp
  have f0: "fired boot = 0" by (simp add: fired_def boot_def)
  have n: "unat (12 :: u8) + unat (0 :: u16) + 2 = 14" by simp
  from transaction_fires_once [OF h1 h2 h3, of "0x3C" OLED_cbk_empty ARG_NULL True]
  obtain s1 sf where s1: "?t = (True, s1)"
    and sf: "events (unat (12 :: u8) + unat (0 :: u16) + 2) s1 = Some sf"
      "i2c_state sf = I2C_STATE_IDLE" "fired sf = fired boot + 1"
    by blast
  from s1 have "snd ?t = s1" by simp
  with sf f0 have "map_option (\<lambda>s. (i2c_state s, fired s)) (events 14 (snd ?t)) = Some (I2C_STATE_IDLE, 1)"
    unfolding n by simp
  with h1 h2 h3 show ?thesis by blast
qed

text \<open>
  Claim C2 as stated fails. A non-null prefix of length 0: after \<open>0 + 0 + 2\<close> events
  the handler is still sending prefix bytes and no callback has been called. A callback
  that submits the next transaction (\<open>OLED_cbk_setwritepage\<close>): after the completing
  event the bus is in SlaveAddress, not Idle.
\<close>

theorem transaction_fires_once_counterexample:
  "map_option (\<lambda>s. (i2c_state s, fired s))
     (events 2 (snd (OLED_i2c_tx_shed 0x3C (Ptr I2C_CMD_DATAPREFIX 0) 0 NULL 0
                       OLED_cbk_empty ARG_NULL True boot)))
     = Some (I2C_STATE_WRITEPREFIX, 0) \<and>
   map_option (\<lambda>s. (i2c_state s, fired s))
     (events 3 (snd (OLED_i2c_tx_shed 0x3C (Ptr I2C_CMD_DATAPREFIX 0) 1 NULL 0
                       OLED_cbk_setwritepage ARG_OLED True boot)))
     = Some (I2C_STATE_SLAVEADDR, 1)"
  by code_simp

lemma wrap_prefix_257:
  assumes idle: "i2c_state s = I2C_STATE_IDLE" and nn: "prefix \<noteq> NULL"
  shows "\<exists>sk. events 257 (snd (OLED_i2c_tx_shed addr prefix 0 bytes bytes_len end_cbk cbk_args fastfail s))
                 = Some sk \<and>
              i2c_state sk = I2C_STATE_WRITEPREFIX \<and> i2c_prefix_count sk = 0xFF00"
proof -
  let ?s1 = "snd (OLED_i2c_tx_shed addr prefix 0 bytes bytes_len end_cbk cbk_args fastfail s)"
  have f1: "i2c_state ?s1 = I2C_STATE_SLAVEADDR" "i2c_prefix_ptr ?s1 = prefix"
    "i2c_prefix_count ?s1 = 0"
    using idle by (simp_all add: OLED_i2c_tx_shed_def)
  from step_addr [OF f1(1)] nn f1 obtain sa where sa: "TWI_vect ?s1 = Some sa"
    "i2c_state sa = I2C_STATE_WRITEPREFIX" "i2c_prefix_count sa = 0"
    by auto
  have "256 < ticks (i2c_prefix_count sa)" using sa(3) by (simp add: ticks_def)
  from prefix_run [OF sa(2) this] obtain sk where sk: "events 256 sa = Some sk"
    "i2c_state sk = I2C_STATE_WRITEPREFIX" "i2c_prefix_count sk = i2c_prefix_count sa - of_nat 256"
    by auto
  have "events (Suc 256) ?s1 = events 256 sa"
    using sa(1) by (rule events_Suc_start)
  then have "events 257 ?s1 = Some sk" using sk(1) by simp
  moreover have "i2c_prefix_count sk = 0xFF00" using sk(3) sa(3) by simp
  ultimately show ?thesis using sk(2) by blast
qed

text \<open>
  Claim C9, what the code does. An accepted submission spends no event on a null
  pointer, \<open>len\<close> events on a non-null pointer of length \<open>len \<ge> 1\<close>, and 65536
  events on a non-null pointer of length 0, for the data and for the prefix alike:
  decremented from 0, either counter wraps modulo \<open>2^16\<close>. For the data count, a
  \<open>uint16_t\<close>, that is what the claim says. For the prefix count the claim says
  \<open>2^8\<close> and 256 bytes, the width of the \<open>uint8_t\<close> prefix length stored in it; the
  declaration \<open>static uint8_t *i2c_prefix_count\<close> makes it a pointer, 16 bits wide.
  Stop is reached after the address event and these events, and the callback is called
  in the event after that; so completion after \<open>prefixLen + dataLen + 2\<close> events
  needs every non-null pointer to have a length of at least 1.
\<close>

theorem zero_length_wraps:
  fixes addr :: u8 and prefix bytes :: ptr and prefix_len :: u8 and bytes_len :: u16
    and end_cbk :: callback and cbk_args :: cbk_arg and fastfail :: bool
  assumes idle: "i2c_state s = I2C_STATE_IDLE"
  defines "np \<equiv> (if prefix = NULL then 0 else if prefix_len = 0 then 65536 else unat prefix_len)"
  defines "nd \<equiv> (if bytes = NULL then 0 else if bytes_len = 0 then 65536 else unat bytes_len)"
  shows "\<exists>s1. OLED_i2c_tx_shed addr prefix prefix_len bytes bytes_len end_cbk cbk_args fastfail s = (True, s1) \<and>
      (\<forall>k \<le> np + nd.
          \<exists>sk. events k s1 = Some sk \<and> fired sk = fired s \<and>
               i2c_state sk \<noteq> I2C_STATE_STOP \<and> i2c_state sk \<noteq> I2C_STATE_IDLE) \<and>
      (\<exists>sn s'. events (np + nd + 1) s1 = Some sn \<and> i2c_state sn = I2C_STATE_STOP \<and>
          TWI_fsm sn = (s', True) \<and> fired s' = fired s + 1 \<and>
          bus s' = bus s @ [START, BYTE (push_bit 1 addr)]
            @ map BYTE (bytes_at (mem s) prefix np)
            @ map BYTE (bytes_at (mem s) bytes nd)
            @ [STOP, CALLBACK end_cbk cbk_args])"
proof -
  let ?s1 = "snd (OLED_i2c_tx_shed addr prefix prefix_len bytes bytes_len end_cbk cbk_args fastfail s)"
  have np: "prefix_events ?s1 = np"
    unfolding np_def using idle by (rule events_of_submission(1))
  have nd: "data_events ?s1 = nd"
    unfolding nd_def using idle by (rule events_of_submission(2))
  note c = tx_completion [OF idle, where addr = addr and prefix = prefix and prefix_len = prefix_len
      and bytes = bytes and bytes_len = bytes_len and end_cbk = end_cbk and cbk_args = cbk_args
      and fastfail = fastfail, unfolded np nd]
  have during: "\<forall>k \<le> np + nd.
          \<exists>sk. events k ?s1 = Some sk \<and> fired sk = fired s \<and>
               i2c_state sk \<noteq> I2C_STATE_STOP \<and> i2c_state sk \<noteq> I2C_STATE_IDLE"
  proof (intro allI impI)
    fix k assume k: "k \<le> np + nd"
    then have "k \<le> Suc (np + nd)" by simp
    from c(2) [OF this] k
    show "\<exists>sk. events k ?s1 = Some sk \<and> fired sk = fired s \<and>
               i2c_state sk \<noteq> I2C_STATE_STOP \<and> i2c_state sk \<noteq> I2C_STATE_IDLE"
      by auto
  qed
  from c(3) obtain sn s' where f: "events (Suc (np + nd)) ?s1 = Some sn"
    "i2c_state sn = I2C_STATE_STOP" "TWI_fsm sn = (s', True)" "fired s' = fired s + 1"
    "bus s' = bus s @ [START, BYTE (push_bit 1 addr)]
            @ map BYTE (bytes_at (mem s) prefix np)
            @ map BYTE (bytes_at (mem s) bytes nd)
            @ [STOP, CALLBACK end_cbk cbk_args]"
    by auto
  have e1: "np + nd + 1 = Suc (np + nd)" by simp
  show ?thesis
    apply (rule exI [of _ ?s1])
    apply (intro conjI)
      apply (rule c(1))
     apply (rule during)
    apply (rule exI [of _ sn], rule exI [of _ s'])
    using f unfolding e1
    apply simp
    done
qed

theorem zero_length_wraps_witness:
  "i2c_state boot = I2C_STATE_IDLE \<and>
   map_option i2c_state
     (events 65537 (snd (OLED_i2c_tx_shed 0x3C (Ptr I2C_CMD_DATAPREFIX 0) 0 NULL 0
                           OLED_cbk_empty ARG_NULL True boot)))
     = Some I2C_STATE_STOP \<and>
   map_option i2c_state
     (events 65538 (snd (OLED_i2c_tx_shed 0x3C (Ptr I2C_CMD_DATAPREFIX 0) 1 (Ptr (CALLER 0) 0) 0
                           OLED_cbk_empty ARG_NULL True boot)))
     = Some I2C_STATE_STOP"
proof -
  have h1: "i2c_state boot = I2C_STATE_IDLE" by (simp add: boot_def)
  let ?ta = "OLED_i2c_tx_shed 0x3C (Ptr I2C_CMD_DATAPREFIX 0) 0 NULL 0 OLED_cbk_empty ARG_NULL True boot"
  let ?tb = "OLED_i2c_tx_shed 0x3C (Ptr I2C_CMD_DATAPREFIX 0) 1 (Ptr (CALLER 0) 0) 0
               OLED_cbk_empty ARG_NULL True boot"
  have na: "(if Ptr I2C_CMD_DATAPREFIX 0 = NULL then 0 else if (0 :: u8) = 0 then 65536 else unat (0 :: u8))
              + (if NULL = NULL then 0 else if (0 :: u16) = 0 then 65536 else unat (0 :: u16)) + 1
            = (65537 :: nat)"
    by (simp add: NULL_def)
  have nb: "(if Ptr I2C_CMD_DATAPREFIX 0 = NULL then 0 else if (1 :: u8) = 0 then 65536 else unat (1 :: u8))
              + (if Ptr (CALLER 0) 0 = NULL then 0 else if (0 :: u16) = 0 then 65536 else unat (0 :: u16)) + 1
            = (65538 :: nat)"
    by (simp add: NULL_def)
  from zero_length_wraps [OF h1, of "0x3C" "Ptr I2C_CMD_DATAPREFIX 0" 0 NULL 0 OLED_cbk_empty ARG_NULL True]
  obtain s1 sn where "?ta = (True, s1)" "events 65537 s1 = Some sn" "i2c_state sn = I2C_STATE_STOP"
    unfolding na by blast
  then have a: "map_option i2c_state (events 65537 (snd ?ta)) = Some I2C_STATE_STOP"
    by simp
  from zero_length_wraps [OF h1, of "0x3C" "Ptr I2C_CMD_DATAPREFIX 0" 1 "Ptr (CALLER 0) 0" 0 OLED_cbk_empty ARG_NULL True]
  obtain s1 sn where "?tb = (True, s1)" "events 65538 s1 = Some sn" "i2c_state sn = I2C_STATE_STOP"
    unfolding nb by blast
  then have b: "map_option i2c_state (events 65538 (snd ?tb)) = Some I2C_STATE_STOP"
    by simp
  from h1 a b show ?thesis by blast
qed

text \<open>
  The failing input of claim C9, a non-null prefix of length 0: after the address event
  and 256 prefix events the handler has not left the prefix; it is still in WritePrefix,
  with 0xFF00 bytes to go.
\<close>

theorem zero_length_prefix_after_257:
  "map_option (\<lambda>s. (i2c_state s, i2c_prefix_count s))
     (events 257 (snd (OLED_i2c_tx_shed 0x3C (Ptr I2C_CMD_DATAPREFIX 0) 0 NULL 0
                         OLED_cbk_empty ARG_NULL True boot)))
     = Some (I2C_STATE_WRITEPREFIX, 0xFF00)"
proof -
  have h1: "i2c_state boot = I2C_STATE_IDLE" by (simp add: boot_def)
  have h2: "Ptr I2C_CMD_DATAPREFIX 0 \<noteq> NULL" by (simp add: NULL_def)
  from wrap_prefix_257 [OF h1 h2, of "0x3C" NULL 0 OLED_cbk_empty ARG_NULL True]
  obtain sk where "events 257 (snd (OLED_i2c_tx_shed 0x3C (Ptr I2C_CMD_DATAPREFIX 0) 0 NULL 0
                         OLED_cbk_empty ARG_NULL True boot)) = Some sk"
    "i2c_state sk = I2C_STATE_WRITEPREFIX" "i2c_prefix_count sk = 0xFF00"
    by blast
  then show ?thesis by simp
qed

section \<open>Refresh\<close>

lemma unat_mult_8_16: "unat ((ucast (a :: u8) :: u16) * ucast (b :: u8)) = unat a * unat b"
proof -
  have a: "unat a < 256" using unsigned_less [of a] by simp
  have b: "unat b < 256" using unsigned_less [of b] by simp
  have "unat a * unat b \<le> 255 * 255"
    using a b by (intro mult_le_mono) simp_all
  then have "unat a * unat b < 2 ^ 16" by simp
  then show ?thesis
    by (simp add: unat_word_ariths unat_ucast_8_16)
qed

lemma unat_of_nat_u8: "p < 256 \<Longrightarrow> unat (of_nat p :: u8) = p"
  by (simp add: unat_of_nat)

lemma bytes_at_patched_setpage:
  "bytes_at (store m (Ptr I2C_CMD_SETPAGE 5) v) (Ptr I2C_CMD_SETPAGE 0) 6
     = bytes_at m (Ptr I2C_CMD_SETPAGE 0) 5 @ [v]"
  by (simp add: bytes_at_def upt_rec numeral_nat)

lemma bytes_at_other_region:
  "r \<noteq> r' \<Longrightarrow> bytes_at (store m (Ptr r' i) v) (Ptr r j) n = bytes_at m (Ptr r j) n"
  by (simp add: bytes_at_def)

lemma bytes_at_1: "bytes_at m (Ptr r i) (Suc 0) = [m r i]"
  by (simp add: bytes_at_def)

text \<open>\<open>OLED_refresh\<close> on an idle bus with the lock free takes the lock and submits the
  select-page transaction for page index 0.\<close>

lemma refresh_start:
  assumes "i2c_state s = I2C_STATE_IDLE" and "busy_lock (oled s) \<noteq> 0"
  shows "\<exists>t. OLED_refresh s = Some t \<and> at_select s 0 t \<and> bus t = bus s @ [START]"
  using assms
  by (simp add: OLED_refresh_def OLED_spinlock_def cbk_setwritepage_def spin_tx_shed_def
      OLED_i2c_tx_shed_def at_select_def Let_def)

text \<open>The select-page transaction: eight events, the last one calls
  \<open>OLED_cbk_writepage\<close>.\<close>

lemma select_done:
  assumes a: "at_select s p t"
  shows "k \<le> 7 \<Longrightarrow> \<exists>tk. events k t = Some tk \<and> oled tk = oled t \<and> i2c_state tk \<noteq> I2C_STATE_IDLE"
    and "\<exists>t'. events 8 t = call OLED_cbk_writepage ARG_OLED t' \<and>
              i2c_state t' = I2C_STATE_IDLE \<and> mem t' = mem t \<and> oled t' = oled t \<and>
              bus t' = bus t @ BYTE (push_bit 1 (i2c_addr (oled s)))
                # map BYTE (bytes_at (mem s) (Ptr I2C_CMD_SETPAGE 0) 5)
                @ [BYTE (0xB0 OR of_nat p), STOP, CALLBACK OLED_cbk_writepage ARG_OLED]"
proof -
  from a have f: "i2c_state t = I2C_STATE_SLAVEADDR"
    "i2c_prefix_ptr t = Ptr I2C_CMD_SETPAGE 0" "i2c_prefix_count t = 6"
    "i2c_data_ptr t = NULL" "i2c_devaddr t = push_bit 1 (i2c_addr (oled s))"
    "i2c_callback t = OLED_cbk_writepage" "i2c_callback_args t = ARG_OLED"
    "mem t = store (mem s) (Ptr I2C_CMD_SETPAGE 5) (0xB0 OR of_nat p)"
    by (simp_all add: at_select_def)
  have pe: "prefix_events t = 6" using f by (simp add: prefix_events_def NULL_def ticks_def)
  have de: "data_events t = 0" using f by (simp add: data_events_def)
  have n: "prefix_events t + data_events t = 6" using pe de by simp
  note r = run_to_callback [OF f(1), unfolded n]
  {
    assume "k \<le> 7"
    then have "k \<le> Suc 6" by simp
    from r(1) [OF this]
    show "\<exists>tk. events k t = Some tk \<and> oled tk = oled t \<and> i2c_state tk \<noteq> I2C_STATE_IDLE"
      by blast
  }
  have e8: "Suc (Suc 6) = 8" by simp
  from r(2) [unfolded e8 pe de f(2,4,5,6,7,8) bytes_at_patched_setpage]
  show "\<exists>t'. events 8 t = call OLED_cbk_writepage ARG_OLED t' \<and>
              i2c_state t' = I2C_STATE_IDLE \<and> mem t' = mem t \<and> oled t' = oled t \<and>
              bus t' = bus t @ BYTE (push_bit 1 (i2c_addr (oled s)))
                # map BYTE (bytes_at (mem s) (Ptr I2C_CMD_SETPAGE 0) 5)
                @ [BYTE (0xB0 OR of_nat p), STOP, CALLBACK OLED_cbk_writepage ARG_OLED]"
    unfolding f(8) by (auto simp del: events.simps)
qed

text \<open>\<open>OLED_cbk_writepage\<close>: below the page count it submits the transfer of the page
  and advances the cursor; at the page count it unlocks.\<close>

lemma writepage_next:
  assumes t': "i2c_state t' = I2C_STATE_IDLE"
    "oled t' = (oled s)\<lparr>busy_lock := 0, cur_page := of_nat p\<rparr>"
    and p: "p < unat (num_pages (oled s))"
  shows "\<exists>u. call OLED_cbk_writepage ARG_OLED t' = Some u \<and>
             i2c_state u = I2C_STATE_SLAVEADDR \<and>
             i2c_prefix_ptr u = Ptr I2C_CMD_DATAPREFIX 0 \<and> i2c_prefix_count u = 1 \<and>
             i2c_data_ptr u = ptr_add (frame_buffer (oled s)) (p * unat (width (oled s))) \<and>
             i2c_data_count u = ucast (width (oled s)) \<and>
             i2c_devaddr u = push_bit 1 (i2c_addr (oled s)) \<and>
             i2c_callback u = OLED_cbk_setwritepage \<and> i2c_callback_args u = ARG_OLED \<and>
             oled u = (oled s)\<lparr>busy_lock := 0, cur_page := of_nat (Suc p)\<rparr> \<and>
             mem u = mem t' \<and> bus u = bus t' @ [START]"
proof -
  have n: "unat (num_pages (oled s)) < 256"
    using unsigned_less [of "num_pages (oled s)"] by simp
  with p have p256: "p < 256" by simp
  then have up: "unat (of_nat p :: u8) = p" by (rule unat_of_nat_u8)
  have lt: "\<not> num_pages (oled s) \<le> (of_nat p :: u8)"
    using p up by (simp add: word_le_nat_alt)
  have off: "unat ((ucast (of_nat p :: u8) :: u16) * ucast (width (oled s))) = p * unat (width (oled s))"
    by (simp add: unat_mult_8_16 up)
  show ?thesis
    using t' lt off
    by (simp add: cbk_writepage_def spin_tx_shed_def OLED_i2c_tx_shed_def Let_def)
qed

lemma writepage_last:
  assumes t': "oled t' = (oled s)\<lparr>busy_lock := 0, cur_page := of_nat p\<rparr>"
    and p: "p = unat (num_pages (oled s))"
  shows "call OLED_cbk_writepage ARG_OLED t' = Some (OLED_unlock t')"
  using t' unfolding p by (simp add: cbk_writepage_def)

text \<open>The transfer of a page, and \<open>OLED_cbk_setwritepage\<close> at its end.\<close>

lemma write_done:
  assumes u: "i2c_state u = I2C_STATE_SLAVEADDR"
    "i2c_prefix_ptr u = Ptr I2C_CMD_DATAPREFIX 0" "i2c_prefix_count u = 1"
    "i2c_data_ptr u = ptr_add (Ptr (CALLER b) off) (p * unat (width (oled s)))"
    "i2c_data_count u = ucast (width (oled s))"
    "i2c_devaddr u = push_bit 1 (i2c_addr (oled s))"
    "i2c_callback u = OLED_cbk_setwritepage" "i2c_callback_args u = ARG_OLED"
    "oled u = (oled s)\<lparr>busy_lock := 0, cur_page := of_nat (Suc p)\<rparr>"
    "mem u = store (mem s) (Ptr I2C_CMD_SETPAGE 5) v"
    and w: "width (oled s) \<noteq> 0"
  shows "k \<le> unat (width (oled s)) + 2 \<Longrightarrow>
           \<exists>tk. events k u = Some tk \<and> oled tk = oled u \<and> i2c_state tk \<noteq> I2C_STATE_IDLE"
    and "\<exists>t. events (unat (width (oled s)) + 3) u = Some t \<and> at_select s (Suc p) t \<and>
             bus t = bus u @ BYTE (push_bit 1 (i2c_addr (oled s))) # BYTE (mem s I2C_CMD_DATAPREFIX 0)
               # map BYTE (bytes_at (mem s) (ptr_add (Ptr (CALLER b) off) (p * unat (width (oled s))))
                           (unat (width (oled s))))
               @ [STOP, CALLBACK OLED_cbk_setwritepage ARG_OLED, START]"
proof -
  let ?w = "unat (width (oled s))"
  have pe: "prefix_events u = Suc 0" using u by (simp add: prefix_events_def NULL_def ticks_def)
  have de: "data_events u = ?w"
    using u w by (simp add: data_events_def NULL_def ticks_ucast)
  have n: "prefix_events u + data_events u = Suc ?w" using pe de by simp
  note r = run_to_callback [OF u(1), unfolded n]
  {
    assume "k \<le> ?w + 2"
    then have "k \<le> Suc (Suc ?w)" by simp
    from r(1) [OF this]
    show "\<exists>tk. events k u = Some tk \<and> oled tk = oled u \<and> i2c_state tk \<noteq> I2C_STATE_IDLE"
      by blast
  }
  have e: "Suc (Suc (Suc ?w)) = ?w + 3" by simp
  have b1: "bytes_at (mem u) (i2c_prefix_ptr u) (Suc 0) = [mem s I2C_CMD_DATAPREFIX 0]"
    unfolding u(2,10) by (simp add: bytes_at_1)
  have b2: "bytes_at (mem u) (i2c_data_ptr u) ?w
              = bytes_at (mem s) (ptr_add (Ptr (CALLER b) off) (p * ?w)) ?w"
    unfolding u(4,10) by (simp add: bytes_at_def)
  from r(2) [unfolded e pe de b1 b2 u(6,7,8)]
  obtain t' where t': "events (?w + 3) u = call OLED_cbk_setwritepage ARG_OLED t'"
    "i2c_state t' = I2C_STATE_IDLE" "mem t' = mem u" "oled t' = oled u"
    "bus t' = bus u @ BYTE (push_bit 1 (i2c_addr (oled s)))
       # map BYTE [mem s I2C_CMD_DATAPREFIX 0]
       @ map BYTE (bytes_at (mem s) (ptr_add (Ptr (CALLER b) off) (p * ?w)) ?w)
       @ [STOP, CALLBACK OLED_cbk_setwritepage ARG_OLED]"
    by blast
  have "\<exists>t. call OLED_cbk_setwritepage ARG_OLED t' = Some t \<and> at_select s (Suc p) t \<and>
             bus t = bus t' @ [START]"
    using t'(2,3,4) u(9,10)
    by (simp add: cbk_setwritepage_def spin_tx_shed_def OLED_i2c_tx_shed_def at_select_def Let_def)
  with t'(1,5)
  show "\<exists>t. events (?w + 3) u = Some t \<and> at_select s (Suc p) t \<and>
             bus t = bus u @ BYTE (push_bit 1 (i2c_addr (oled s))) # BYTE (mem s I2C_CMD_DATAPREFIX 0)
               # map BYTE (bytes_at (mem s) (ptr_add (Ptr (CALLER b) off) (p * ?w)) ?w)
               @ [STOP, CALLBACK OLED_cbk_setwritepage ARG_OLED, START]"
    by auto
qed

lemma page_step:
  assumes a: "at_select s p t" and p: "p < unat (num_pages (oled s))"
    and w: "width (oled s) \<noteq> 0" and fb: "frame_buffer (oled s) = Ptr (CALLER b) off"
    and bt: "bus t = X @ [START]"
  shows "\<exists>v. events (unat (width (oled s)) + 11) t = Some v \<and> at_select s (Suc p) v \<and>
             bus v = (X @ select_page_tx (mem s) (oled s) p @ write_page_tx (mem s) (oled s) p) @ [START]"
    and "k \<le> unat (width (oled s)) + 11 \<Longrightarrow>
           \<exists>tk. events k t = Some tk \<and> busy_lock (oled tk) = 0"
proof -
  let ?w = "unat (width (oled s))"
  from a have ot: "oled t = (oled s)\<lparr>busy_lock := 0, cur_page := of_nat p\<rparr>"
    and mt: "mem t = store (mem s) (Ptr I2C_CMD_SETPAGE 5) (0xB0 OR of_nat p)"
    by (simp_all add: at_select_def)
  from select_done(2) [OF a] obtain t' where t':
    "events 8 t = call OLED_cbk_writepage ARG_OLED t'"
    "i2c_state t' = I2C_STATE_IDLE" "mem t' = mem t" "oled t' = oled t"
    "bus t' = bus t @ BYTE (push_bit 1 (i2c_addr (oled s)))
       # map BYTE (bytes_at (mem s) (Ptr I2C_CMD_SETPAGE 0) 5)
       @ [BYTE (0xB0 OR of_nat p), STOP, CALLBACK OLED_cbk_writepage ARG_OLED]"
    by blast
  from writepage_next [OF t'(2) t'(4) [unfolded ot] p] obtain u where u:
    "call OLED_cbk_writepage ARG_OLED t' = Some u"
    "i2c_state u = I2C_STATE_SLAVEADDR"
    "i2c_prefix_ptr u = Ptr I2C_CMD_DATAPREFIX 0" "i2c_prefix_count u = 1"
    "i2c_data_ptr u = ptr_add (frame_buffer (oled s)) (p * ?w)"
    "i2c_data_count u = ucast (width (oled s))"
    "i2c_devaddr u = push_bit 1 (i2c_addr (oled s))"
    "i2c_callback u = OLED_cbk_setwritepage" "i2c_callback_args u = ARG_OLED"
    "oled u = (oled s)\<lparr>busy_lock := 0, cur_page := of_nat (Suc p)\<rparr>"
    "mem u = mem t'" "bus u = bus t' @ [START]"
    by blast
  have e8: "events 8 t = Some u" using t'(1) u(1) by simp
  have mu: "mem u = store (mem s) (Ptr I2C_CMD_SETPAGE 5) (0xB0 OR of_nat p)"
    using u(11) t'(3) mt by simp
  note wd = write_done [OF u(2,3,4) u(5) [unfolded fb] u(6,7,8,9,10) mu w]
  from wd(2) obtain v where v: "events (?w + 3) u = Some v" "at_select s (Suc p) v"
    "bus v = bus u @ BYTE (push_bit 1 (i2c_addr (oled s))) # BYTE (mem s I2C_CMD_DATAPREFIX 0)
               # map BYTE (bytes_at (mem s) (ptr_add (Ptr (CALLER b) off) (p * ?w)) ?w)
               @ [STOP, CALLBACK OLED_cbk_setwritepage ARG_OLED, START]"
    by blast
  have "events (8 + (?w + 3)) t = events (?w + 3) u"
    using e8 by (rule events_chain)
  then have ev: "events (?w + 11) t = Some v"
    using v(1) by (simp add: add.commute)
  have bv: "bus v = (X @ select_page_tx (mem s) (oled s) p @ write_page_tx (mem s) (oled s) p) @ [START]"
    using v(3) u(12) t'(5) bt fb
    by (simp add: select_page_tx_def write_page_tx_def)
  from ev v(2) bv
  show "\<exists>v. events (?w + 11) t = Some v \<and> at_select s (Suc p) v \<and>
             bus v = (X @ select_page_tx (mem s) (oled s) p @ write_page_tx (mem s) (oled s) p) @ [START]"
    by blast
  assume k: "k \<le> ?w + 11"
  show "\<exists>tk. events k t = Some tk \<and> busy_lock (oled tk) = 0"
  proof (cases "k \<le> 7")
    case True
    from select_done(1) [OF a True] ot show ?thesis by auto
  next
    case False
    define k' where "k' = k - 8"
    have k': "k = 8 + k'" "k' \<le> ?w + 3"
      using False k by (simp_all add: k'_def)
    have ek: "events k t = events k' u"
      unfolding k'(1) using e8 by (rule events_chain)
    show ?thesis
    proof (cases "k' \<le> ?w + 2")
      case True
      from wd(1) [OF True] u(10) ek show ?thesis by auto
    next
      case False
      with k'(2) have "k' = ?w + 3" by simp
      with v(1,2) ek show ?thesis by (simp add: at_select_def)
    qed
  qed
qed

lemma final_step:
  assumes a: "at_select s p t" and p: "p = unat (num_pages (oled s))"
    and bt: "bus t = X @ [START]"
  shows "\<exists>tN. events 8 t = Some tN \<and> i2c_state tN = I2C_STATE_IDLE \<and>
              busy_lock (oled tN) = 1 \<and>
              bus tN = X @ select_page_tx (mem s) (oled s) p"
    and "k < 8 \<Longrightarrow> \<exists>tk. events k t = Some tk \<and> busy_lock (oled tk) = 0"
proof -
  from a have ot: "oled t = (oled s)\<lparr>busy_lock := 0, cur_page := of_nat p\<rparr>"
    by (simp add: at_select_def)
  from select_done(2) [OF a] obtain t' where t':
    "events 8 t = call OLED_cbk_writepage ARG_OLED t'"
    "i2c_state t' = I2C_STATE_IDLE" "mem t' = mem t" "oled t' = oled t"
    "bus t' = bus t @ BYTE (push_bit 1 (i2c_addr (oled s)))
       # map BYTE (bytes_at (mem s) (Ptr I2C_CMD_SETPAGE 0) 5)
       @ [BYTE (0xB0 OR of_nat p), STOP, CALLBACK OLED_cbk_writepage ARG_OLED]"
    by blast
  from writepage_last [OF t'(4) [unfolded ot] p] t'(1)
  have "events 8 t = Some (OLED_unlock t')" by simp
  with t'(2,5) bt
  show "\<exists>tN. events 8 t = Some tN \<and> i2c_state tN = I2C_STATE_IDLE \<and>
              busy_lock (oled tN) = 1 \<and>
              bus tN = X @ select_page_tx (mem s) (oled s) p"
    by (simp add: OLED_unlock_def select_page_tx_def)
  assume "k < 8"
  then have "k \<le> 7" by simp
  from select_done(1) [OF a this] ot
  show "\<exists>tk. events k t = Some tk \<and> busy_lock (oled tk) = 0" by auto
qed

text \<open>The chain from the select-page transaction of page index \<open>p\<close> to the end.\<close>

lemma refresh_chain:
  assumes w: "width (oled s) \<noteq> 0" and fb: "frame_buffer (oled s) = Ptr (CALLER b) off"
  shows "at_select s p t \<Longrightarrow> p + j = unat (num_pages (oled s)) \<Longrightarrow> bus t = X @ [START] \<Longrightarrow>
         (\<exists>tN. events (j * (unat (width (oled s)) + 11) + 8) t = Some tN \<and>
               i2c_state tN = I2C_STATE_IDLE \<and> busy_lock (oled tN) = 1 \<and>
               bus tN = X @ concat (map (\<lambda>q. select_page_tx (mem s) (oled s) q
                                            @ write_page_tx (mem s) (oled s) q) [p..<p + j])
                          @ select_page_tx (mem s) (oled s) (p + j)) \<and>
         (\<forall>k < j * (unat (width (oled s)) + 11) + 8.
               \<exists>tk. events k t = Some tk \<and> busy_lock (oled tk) = 0)"
proof (induction j arbitrary: p t X)
  case 0
  then have p: "p = unat (num_pages (oled s))" by simp
  from final_step(1) [OF "0.prems"(1) p "0.prems"(3)]
    final_step(2) [OF "0.prems"(1) p "0.prems"(3)]
  show ?case by simp
next
  case (Suc j)
  let ?w = "unat (width (oled s))"
  let ?f = "\<lambda>q. select_page_tx (mem s) (oled s) q @ write_page_tx (mem s) (oled s) q"
  from Suc.prems(2) have p: "p < unat (num_pages (oled s))" by simp
  note ps = page_step [OF Suc.prems(1) p w fb Suc.prems(3)]
  from ps(1) obtain v where v: "events (?w + 11) t = Some v" "at_select s (Suc p) v"
    "bus v = (X @ ?f p) @ [START]"
    by auto
  from Suc.prems(2) have pj: "Suc p + j = unat (num_pages (oled s))" by simp
  from Suc.IH [OF v(2) pj v(3)] obtain tN where tN:
    "events (j * (?w + 11) + 8) v = Some tN" "i2c_state tN = I2C_STATE_IDLE"
    "busy_lock (oled tN) = 1"
    "bus tN = (X @ ?f p) @ concat (map ?f [Suc p..<Suc p + j])
                @ select_page_tx (mem s) (oled s) (Suc p + j)"
    and during: "\<forall>k < j * (?w + 11) + 8. \<exists>tk. events k v = Some tk \<and> busy_lock (oled tk) = 0"
    by blast
  have split: "Suc j * (?w + 11) + 8 = (?w + 11) + (j * (?w + 11) + 8)" by simp
  have "events ((?w + 11) + (j * (?w + 11) + 8)) t = events (j * (?w + 11) + 8) v"
    using v(1) by (rule events_chain)
  then have ev: "events (Suc j * (?w + 11) + 8) t = Some tN"
    unfolding split using tN(1) by (simp only:)
  have up: "[p..<p + Suc j] = p # [Suc p..<Suc p + j]"
    by (simp add: upt_conv_Cons)
  have bus: "bus tN = X @ concat (map ?f [p..<p + Suc j])
                @ select_page_tx (mem s) (oled s) (p + Suc j)"
    unfolding up using tN(4) by simp
  have all: "\<forall>k < Suc j * (?w + 11) + 8. \<exists>tk. events k t = Some tk \<and> busy_lock (oled tk) = 0"
  proof (intro allI impI)
    fix k assume k: "k < Suc j * (?w + 11) + 8"
    show "\<exists>tk. events k t = Some tk \<and> busy_lock (oled tk) = 0"
    proof (cases "k \<le> ?w + 11")
      case True
      from ps(2) [OF True] show ?thesis .
    next
      case False
      define k' where "k' = k - (?w + 11)"
      have k': "k = (?w + 11) + k'" "k' < j * (?w + 11) + 8"
        using False k by (simp_all add: k'_def)
      have "events k t = events k' v"
        unfolding k'(1) using v(1) by (rule events_chain)
      with during k'(2) show ?thesis by simp
    qed
  qed
  from ev tN(2,3) bus all show ?case by blast
qed

lemma ready_facts:
  "i2c_state ready = I2C_STATE_IDLE" "busy_lock (oled ready) = 1" "width (oled ready) = 2"
  "num_pages (oled ready) = 8" "frame_buffer (oled ready) = Ptr (CALLER 0) 0"
  "i2c_addr (oled ready) = 0x3C" "height (oled ready) = 64"
  by (code_simp+)

lemma ready_refresh_events:
  "refresh_events (oled ready) = 112" "unat (num_pages (oled ready)) * (unat (width (oled ready)) + 11) = 104"
  by (simp_all add: refresh_events_def ready_facts)

lemma ready_last_tx:
  "drop 152 (bus ready @ refresh_trace (mem ready) (oled ready))
     = [START, BYTE 0x78, BYTE 0x80, BYTE 0x00, BYTE 0x80, BYTE 0x10, BYTE 0x80, BYTE 0xB8,
        STOP, CALLBACK OLED_cbk_writepage ARG_OLED]"
  by code_simp

text \<open>The last byte of the select-page command keeps the page index in its low nibble
  for indices below 16.\<close>

lemma select_page_nibble:
  assumes "p < 16"
  shows "(0xB0 OR (of_nat p :: u8)) AND 0x0F = of_nat p"
proof -
  from assms have "p = 0 \<or> p = 1 \<or> p = 2 \<or> p = 3 \<or> p = 4 \<or> p = 5 \<or> p = 6 \<or> p = 7 \<or>
      p = 8 \<or> p = 9 \<or> p = 10 \<or> p = 11 \<or> p = 12 \<or> p = 13 \<or> p = 14 \<or> p = 15"
    by arith
  then show ?thesis
    by (elim disjE) simp_all
qed

text \<open>
  Claim C1, what the code does. A refresh started by \<open>OLED_refresh\<close> on an idle bus
  with the lock free, on a display of non-zero width with a caller-owned frame buffer:
  the transactions are, for each page \<open>p = 0 .. pageCount - 1\<close> in increasing order,
  the select-page command with last byte \<open>0xB0 | p\<close> followed by the transfer of the
  \<open>width\<close> bytes \<open>frameBuffer[p*width .. p*width+width)\<close>, each page once; but when
  the transfer of the last page has completed (after \<open>pageCount * (width + 11)\<close>
  events) the lock is still held, and one more select-page command, with page index
  \<open>pageCount\<close>, is sent. The completion of that command releases the lock and ends
  the chain.
\<close>

theorem refresh_transmits:
  assumes idle: "i2c_state s = I2C_STATE_IDLE" and free: "busy_lock (oled s) \<noteq> 0"
    and w: "width (oled s) \<noteq> 0" and fb: "frame_buffer (oled s) = Ptr (CALLER b) off"
  shows "\<exists>s0 sm sN. OLED_refresh s = Some s0 \<and>
           events (unat (num_pages (oled s)) * (unat (width (oled s)) + 11)) s0 = Some sm \<and>
           busy_lock (oled sm) = 0 \<and>
           events (refresh_events (oled s)) s0 = Some sN \<and>
           i2c_state sN = I2C_STATE_IDLE \<and> busy_lock (oled sN) = 1 \<and>
           bus sN = bus s @ refresh_trace (mem s) (oled s)"
proof -
  let ?n = "unat (num_pages (oled s))"
  let ?w = "unat (width (oled s))"
  from refresh_start [OF idle free] obtain s0 where s0: "OLED_refresh s = Some s0"
    "at_select s 0 s0" "bus s0 = bus s @ [START]"
    by blast
  have n: "0 + ?n = ?n" by simp
  from refresh_chain [OF w fb s0(2) n s0(3)] obtain sN where sN:
    "events (?n * (?w + 11) + 8) s0 = Some sN" "i2c_state sN = I2C_STATE_IDLE"
    "busy_lock (oled sN) = 1"
    "bus sN = bus s @ concat (map (\<lambda>q. select_page_tx (mem s) (oled s) q
                                     @ write_page_tx (mem s) (oled s) q) [0..<0 + ?n])
                @ select_page_tx (mem s) (oled s) (0 + ?n)"
    and during: "\<forall>k < ?n * (?w + 11) + 8. \<exists>tk. events k s0 = Some tk \<and> busy_lock (oled tk) = 0"
    by blast
  have "?n * (?w + 11) < ?n * (?w + 11) + 8" by simp
  with during obtain sm where sm: "events (?n * (?w + 11)) s0 = Some sm" "busy_lock (oled sm) = 0"
    by blast
  from s0(1) sm sN(1,2,3,4) show ?thesis
    by (simp add: refresh_events_def refresh_trace_def)
qed

theorem refresh_transmits_witness:
  "i2c_state ready = I2C_STATE_IDLE \<and> busy_lock (oled ready) \<noteq> 0 \<and>
   width (oled ready) \<noteq> 0 \<and> frame_buffer (oled ready) = Ptr (CALLER 0) 0 \<and>
   map_option (\<lambda>s. busy_lock (oled s)) (Option.bind (OLED_refresh ready) (events 104)) = Some 0 \<and>
   map_option (\<lambda>s. (busy_lock (oled s), drop 152 (bus s)))
     (Option.bind (OLED_refresh ready) (events 112))
     = Some (1, [START, BYTE 0x78, BYTE 0x80, BYTE 0x00, BYTE 0x80, BYTE 0x10, BYTE 0x80,
                 BYTE 0xB8, STOP, CALLBACK OLED_cbk_writepage ARG_OLED])"
proof -
  have h1: "i2c_state ready = I2C_STATE_IDLE" by (rule ready_facts)
  have h2: "busy_lock (oled ready) \<noteq> 0" by (simp add: ready_facts)
  have h3: "width (oled ready) \<noteq> 0" by (simp add: ready_facts)
  have h4: "frame_buffer (oled ready) = Ptr (CALLER 0) 0" by (rule ready_facts)
  from refresh_transmits [OF h1 h2 h3 h4, unfolded ready_refresh_events]
  obtain s0 sm sN where r: "OLED_refresh ready = Some s0"
    "events 104 s0 = Some sm" "busy_lock (oled sm) = 0"
    "events 112 s0 = Some sN" "busy_lock (oled sN) = 1"
    "bus sN = bus ready @ refresh_trace (mem ready) (oled ready)"
    by blast
  have a: "map_option (\<lambda>s. busy_lock (oled s)) (Option.bind (OLED_refresh ready) (events 104)) = Some 0"
    using r(1,2,3) by simp
  have b: "map_option (\<lambda>s. (busy_lock (oled s), drop 152 (bus s)))
     (Option.bind (OLED_refresh ready) (events 112))
     = Some (1, [START, BYTE 0x78, BYTE 0x80, BYTE 0x00, BYTE 0x80, BYTE 0x10, BYTE 0x80,
                 BYTE 0xB8, STOP, CALLBACK OLED_cbk_writepage ARG_OLED])"
    using r(1,4,5) ready_last_tx unfolding r(6) [symmetric] by simp
  from h1 h2 h3 h4 a b show ?thesis by blast
qed




section \<open>Rectangles\<close>

text \<open>Writing a pixel sets its bit, leaves every bit that already has the written
  value as it is, leaves every other bit of memory as it is, and changes nothing but
  memory.\<close>

lemma put_pixel_inl_oled [simp]: "oled (OLED_put_pixel_inl x y c s) = oled s"
  by (simp add: OLED_put_pixel_inl_def Let_def)

lemma and_7_lt_8: "unat ((y :: u8) AND 7) < 8"
proof -
  have "y AND 7 \<le> 7" by (rule word_and_le1)
  then have "unat (y AND 7) \<le> unat (7 :: u8)" by (simp only: word_le_nat_alt)
  then show ?thesis by simp
qed

lemma put_pixel_sets: "pixel_bit (OLED_put_pixel_inl x y c s) x y = c"
proof -
  obtain r i where p: "pixel_cell (oled s) x y = Ptr r i"
    by (cases "pixel_cell (oled s) x y")
  show ?thesis
    using and_7_lt_8 [of y] p
    by (auto simp add: OLED_put_pixel_inl_def pixel_bit_def Let_def bit_simps)
qed

lemma put_pixel_keeps:
  assumes "pixel_bit s X Y = c"
  shows "pixel_bit (OLED_put_pixel_inl x y c s) X Y = c"
proof -
  obtain r i where p: "pixel_cell (oled s) x y = Ptr r i"
    by (cases "pixel_cell (oled s) x y")
  obtain r' i' where q: "pixel_cell (oled s) X Y = Ptr r' i'"
    by (cases "pixel_cell (oled s) X Y")
  show ?thesis
    using assms and_7_lt_8 [of y] and_7_lt_8 [of Y] p q
    by (auto simp add: OLED_put_pixel_inl_def pixel_bit_def Let_def bit_simps)
qed

lemma put_pixel_other:
  assumes "\<not> (pixel_cell (oled t) x y = p \<and> unat (y AND 7) = k)"
  shows "bit (load (mem (OLED_put_pixel_inl x y c t)) p) k = bit (load (mem t) p) k"
proof -
  obtain r i where q: "pixel_cell (oled t) x y = Ptr r i"
    by (cases "pixel_cell (oled t) x y")
  obtain r' i' where p: "p = Ptr r' i'"
    by (cases p)
  show ?thesis
    using assms and_7_lt_8 [of y] p q
    by (auto simp add: OLED_put_pixel_inl_def Let_def bit_simps dest: bit_imp_le_length)
qed

lemma put_pixel_frame: "t\<lparr>mem := m\<rparr> = s \<Longrightarrow> (OLED_put_pixel_inl x y c t)\<lparr>mem := m\<rparr> = s"
  by (simp add: OLED_put_pixel_inl_def Let_def)

text \<open>The counting loop: it ends when its bound is below 255 and its body ends; its
  first round; what every round keeps, it keeps; and what the round of one counter
  value in its range establishes and every round keeps, holds at its end.\<close>

lemma for_u8_Some:
  "bound < 255 \<Longrightarrow> (\<forall>x s. \<exists>s'. body x s = Some s') \<Longrightarrow> \<exists>s'. for_u8 x bound body s = Some s'"
proof (induction x bound body s rule: for_u8.induct)
  case (1 x bound body s)
  show ?case
  proof (cases "unat x \<le> bound")
    case True
    from "1.prems"(2) obtain s1 where s1: "body x s = Some s1" by blast
    from "1.prems"(1) have b: "\<not> 255 \<le> bound" by simp
    from "1.IH" [OF True b s1 "1.prems"] obtain s' where "for_u8 (x + 1) bound body s1 = Some s'"
      by blast
    with True b s1 show ?thesis
      by (subst for_u8.simps) simp
  next
    case False
    then show ?thesis by (subst for_u8.simps) simp
  qed
qed

lemma for_u8_first:
  assumes "for_u8 x bound body s = Some s'" and "unat x \<le> bound"
  shows "\<not> 255 \<le> bound \<and> (\<exists>s1. body x s = Some s1 \<and> for_u8 (x + 1) bound body s1 = Some s')"
proof -
  have "for_u8 x bound body s =
     (if 255 \<le> bound then None
      else (case body x s of None \<Rightarrow> None | Some s' \<Rightarrow> for_u8 (x + 1) bound body s'))"
    using assms(2) by (subst for_u8.simps) simp
  with assms(1) show ?thesis
    by (auto split: if_splits option.splits)
qed

lemma for_u8_keeps:
  "for_u8 x bound body s = Some s' \<Longrightarrow> P s \<Longrightarrow>
   (\<forall>x s s'. body x s = Some s' \<longrightarrow> P s \<longrightarrow> P s') \<Longrightarrow> P s'"
proof (induction x bound body s rule: for_u8.induct)
  case (1 x bound body s)
  show ?case
  proof (cases "unat x \<le> bound")
    case True
    from for_u8_first [OF "1.prems"(1) True] obtain s1 where b: "\<not> 255 \<le> bound"
      and s1: "body x s = Some s1" "for_u8 (x + 1) bound body s1 = Some s'"
      by blast
    from "1.prems"(3) s1(1) "1.prems"(2) have "P s1" by blast
    from "1.IH" [OF True b s1(1) s1(2) this "1.prems"(3)] show ?thesis .
  next
    case False
    then have "for_u8 x bound body s = Some s" by (subst for_u8.simps) simp
    with "1.prems" show ?thesis by simp
  qed
qed

lemma for_u8_keeps_in:
  "for_u8 x0 bound body s = Some s' \<Longrightarrow> P s \<Longrightarrow>
   (\<forall>x t t'. unat x0 \<le> unat x \<and> unat x \<le> bound \<longrightarrow> body x t = Some t' \<longrightarrow> P t \<longrightarrow> P t') \<Longrightarrow>
   P s'"
proof (induction x0 bound body s rule: for_u8.induct)
  case (1 x0 bound body s)
  show ?case
  proof (cases "unat x0 \<le> bound")
    case True
    from for_u8_first [OF "1.prems"(1) True] obtain s1 where b: "\<not> 255 \<le> bound"
      and s1: "body x0 s = Some s1" "for_u8 (x0 + 1) bound body s1 = Some s'"
      by blast
    from True b have "unat x0 < 255" by simp
    then have u: "unat (x0 + 1) = unat x0 + 1" by (simp add: unat_word_ariths)
    from "1.prems"(3) True s1(1) "1.prems"(2) have "P s1" by blast
    moreover have "\<forall>x t t'. unat (x0 + 1) \<le> unat x \<and> unat x \<le> bound \<longrightarrow>
        body x t = Some t' \<longrightarrow> P t \<longrightarrow> P t'"
    proof (intro allI impI)
      fix x t t'
      assume a: "unat (x0 + 1) \<le> unat x \<and> unat x \<le> bound" "body x t = Some t'" "P t"
      from a(1) u have "unat x0 \<le> unat x \<and> unat x \<le> bound" by simp
      with "1.prems"(3) a(2,3) show "P t'" by blast
    qed
    ultimately show ?thesis
      using "1.IH" [OF True b s1(1) s1(2)] by blast
  next
    case False
    then have "for_u8 x0 bound body s = Some s" by (subst for_u8.simps) simp
    with "1.prems" show ?thesis by simp
  qed
qed

lemma for_u8_establishes:
  "for_u8 x0 bound body s = Some s' \<Longrightarrow> unat x0 \<le> unat x \<Longrightarrow> unat x \<le> bound \<Longrightarrow>
   (\<forall>t t'. body x t = Some t' \<longrightarrow> P t') \<Longrightarrow>
   (\<forall>x' t t'. body x' t = Some t' \<longrightarrow> P t \<longrightarrow> P t') \<Longrightarrow>
   P s'"
proof (induction x0 bound body s rule: for_u8.induct)
  case (1 x0 bound body s)
  from "1.prems"(2,3) have le: "unat x0 \<le> bound" by simp
  from for_u8_first [OF "1.prems"(1) le] obtain s1 where b: "\<not> 255 \<le> bound"
    and s1: "body x0 s = Some s1" "for_u8 (x0 + 1) bound body s1 = Some s'"
    by blast
  show ?case
  proof (cases "x0 = x")
    case True
    with "1.prems"(4) s1(1) have "P s1" by blast
    from for_u8_keeps [where P = P, OF s1(2) this "1.prems"(5)] show ?thesis .
  next
    case False
    then have "unat x0 \<noteq> unat x" by (simp add: word_unat_eq_iff)
    with "1.prems"(2) have lt: "unat x0 < unat x" by simp
    from le b have "unat x0 < 255" by simp
    then have "unat (x0 + 1) = unat x0 + 1" by (simp add: unat_word_ariths)
    with lt have "unat (x0 + 1) \<le> unat x" by simp
    from "1.IH" [OF le b s1(1) s1(2) this "1.prems"(3,4,5)] show ?thesis .
  qed
qed

lemma u8_count: "\<not> (4 :: u8) \<le> 0" "\<not> (4 :: u8) \<le> 1" "\<not> (4 :: u8) \<le> 2" "\<not> (4 :: u8) \<le> 3"
  by (simp_all add: word_le_nat_alt)

lemma unat_pred_lt_255:
  assumes "(w :: u8) \<noteq> 0" and "\<not> v > w - 1"
  shows "unat v < 255"
proof -
  have "unat w < 256" using unsigned_less [of w] by simp
  moreover have "unat (w - 1) = unat w - 1" using assms(1) by (rule unat_minus_one)
  moreover have "unat v \<le> unat (w - 1)" using assms(2) by (simp add: word_le_nat_alt not_less)
  ultimately show ?thesis by simp
qed

lemma gt_pred_iff:
  assumes "(w :: u8) \<noteq> 0"
  shows "(v > w - 1) = (v \<ge> w)"
proof -
  have "unat (w - 1) = unat w - 1" using assms by (rule unat_minus_one)
  moreover have "unat w \<noteq> 0" using assms by (simp add: unat_eq_0)
  ultimately show ?thesis
    by (auto simp add: word_less_nat_alt word_le_nat_alt)
qed

lemma pred_less:
  assumes "(w :: u8) \<noteq> 0"
  shows "w - 1 < w"
proof -
  have "unat (w - 1) = unat w - 1" using assms by (rule unat_minus_one)
  moreover have "unat w \<noteq> 0" using assms by (simp add: unat_eq_0)
  ultimately show ?thesis by (simp add: word_less_nat_alt)
qed

text \<open>With valid flags, \<open>OLED_put_rectangle\<close> either finds all four coordinates
  beyond the display or does what it does on the limited coordinates.\<close>

lemma rect_clamped:
  assumes valid: "\<not> params > (OLED_BLACK e OR OLED_FILL e)"
  shows "OLED_put_rectangle e x_from y_from x_to y_to params s =
     (if x_from > width (oled s) - 1 \<and> x_to > width (oled s) - 1 \<and>
         y_from > height (oled s) - 1 \<and> y_to > height (oled s) - 1
      then Some (OLED_EBOUNDS, s)
      else OLED_put_rectangle e
             (if x_from > width (oled s) - 1 then width (oled s) - 1 else x_from)
             (if y_from > height (oled s) - 1 then height (oled s) - 1 else y_from)
             (if x_to > width (oled s) - 1 then width (oled s) - 1 else x_to)
             (if y_to > height (oled s) - 1 then height (oled s) - 1 else y_to)
             params s)"
  using valid
  by (cases "x_from > width (oled s) - 1"; cases "x_to > width (oled s) - 1";
      cases "y_from > height (oled s) - 1"; cases "y_to > height (oled s) - 1")
     (simp_all add: OLED_put_rectangle_def limit_def Let_def u8_count split del: if_split)

text \<open>On coordinates within the display it returns Ok; then every pixel of the
  rectangle has the requested colour, every other bit of memory is as before, and
  nothing but memory has changed.\<close>

lemma rect_draws:
  assumes valid: "\<not> params > (OLED_BLACK e OR OLED_FILL e)"
    and w: "width (oled s) \<noteq> 0" and h: "height (oled s) \<noteq> 0"
    and xf: "\<not> x_from > width (oled s) - 1" and xt: "\<not> x_to > width (oled s) - 1"
    and yf: "\<not> y_from > height (oled s) - 1" and yt: "\<not> y_to > height (oled s) - 1"
  shows "\<exists>s'. OLED_put_rectangle e x_from y_from x_to y_to params s = Some (OLED_EOK, s') \<and>
           s'\<lparr>mem := mem s\<rparr> = s \<and>
           (\<forall>x y. rect_pixel (OLED_FILL e AND params \<noteq> 0) x_from y_from x_to y_to x y \<longrightarrow>
                  pixel_bit s' x y = (OLED_BLACK e AND params \<noteq> 0)) \<and>
           (\<forall>p k. (\<forall>x y. rect_pixel (OLED_FILL e AND params \<noteq> 0) x_from y_from x_to y_to x y \<longrightarrow>
                         \<not> (pixel_cell (oled s) x y = p \<and> unat (y AND 7) = k)) \<longrightarrow>
                  bit (load (mem s') p) k = bit (load (mem s) p) k)"
proof -
  let ?c = "OLED_BLACK e AND params \<noteq> 0"
  let ?sx = "if x_to < x_from then x_to else x_from"
  let ?sy = "if y_to < y_from then y_to else y_from"
  let ?ex = "if x_to > x_from then x_to else x_from"
  let ?ey = "if y_to > y_from then y_to else y_from"
  let ?I = "\<lambda>t. t\<lparr>mem := mem s\<rparr> = s"
  have bx: "unat ?ex < 255"
    using unat_pred_lt_255 [OF w xf] unat_pred_lt_255 [OF w xt] by simp
  have "by": "unat ?ey < 255"
    using unat_pred_lt_255 [OF h yf] unat_pred_lt_255 [OF h yt] by simp
  have mm: "?sx = min x_from x_to" "?ex = max x_from x_to"
    "?sy = min y_from y_to" "?ey = max y_from y_to"
    by (auto simp add: min_def max_def)
  have rp: "rect_pixel f x_from y_from x_to y_to x y =
              (unat ?sx \<le> unat x \<and> unat x \<le> unat ?ex \<and> unat ?sy \<le> unat y \<and> unat y \<le> unat ?ey \<and>
               (f \<or> x = ?sx \<or> x = ?ex \<or> y = ?sy \<or> y = ?ey))" for f x y
    unfolding mm by (simp add: rect_pixel_def word_le_nat_alt)
  have I0: "?I s" by simp
  have Iput: "\<And>x y t. ?I t \<Longrightarrow> ?I (OLED_put_pixel_inl x y ?c t)"
    by (rule put_pixel_frame)
  have Cput: "\<And>X Y x y t. pixel_bit t X Y = ?c \<Longrightarrow> pixel_bit (OLED_put_pixel_inl x y ?c t) X Y = ?c"
    by (rule put_pixel_keeps)
  have Oput: "oled (OLED_put_pixel_inl x y ?c t) = oled s \<and>
              bit (load (mem (OLED_put_pixel_inl x y ?c t)) p) k = bit (load (mem s) p) k"
    if "oled t = oled s \<and> bit (load (mem t) p) k = bit (load (mem s) p) k"
      and "\<not> (pixel_cell (oled s) x y = p \<and> unat (y AND 7) = k)" for x y t p k
    using that put_pixel_other [of t x y p k ?c] by simp
  show ?thesis
  proof (cases "OLED_FILL e AND params \<noteq> 0")
    case True
    let ?inner = "\<lambda>x. for_u8 ?sy (unat ?ey) (\<lambda>y s. Some (OLED_put_pixel_inl x y ?c s))"
    have R: "OLED_put_rectangle e x_from y_from x_to y_to params s
               = map_option (Pair OLED_EOK) (for_u8 ?sx (unat ?ex) ?inner s)"
      using valid xf xt yf yt True
      by (simp add: OLED_put_rectangle_def limit_def Let_def u8_count split del: if_split)
    have inner_some: "\<forall>x t. \<exists>t'. ?inner x t = Some t'"
    proof (intro allI)
      fix x t
      show "\<exists>t'. ?inner x t = Some t'"
        by (rule for_u8_Some [OF "by"]) simp
    qed
    from for_u8_Some [OF bx inner_some] obtain s' where s': "for_u8 ?sx (unat ?ex) ?inner s = Some s'"
      by blast
    have frame: "?I s'"
    proof (rule for_u8_keeps [where P = ?I, OF s' I0], intro allI impI)
      fix x t t' assume a: "?inner x t = Some t'" "?I t"
      show "?I t'"
        by (rule for_u8_keeps [where P = ?I, OF a(1) a(2)]) (use Iput in auto)
    qed
    have colour: "pixel_bit s' x y = ?c" if m: "rect_pixel True x_from y_from x_to y_to x y" for x y
    proof -
      let ?C = "\<lambda>t. pixel_bit t x y = ?c"
      from m have r: "unat ?sx \<le> unat x" "unat x \<le> unat ?ex" "unat ?sy \<le> unat y" "unat y \<le> unat ?ey"
        unfolding rp by simp_all
      have est: "\<forall>t t'. ?inner x t = Some t' \<longrightarrow> ?C t'"
      proof (intro allI impI)
        fix t t' assume a: "?inner x t = Some t'"
        show "?C t'"
          by (rule for_u8_establishes [where P = ?C, OF a r(3) r(4)])
             (use put_pixel_sets Cput in auto)
      qed
      have keep: "\<forall>x' t t'. ?inner x' t = Some t' \<longrightarrow> ?C t \<longrightarrow> ?C t'"
      proof (intro allI impI)
        fix x' t t' assume a: "?inner x' t = Some t'" "?C t"
        show "?C t'"
          by (rule for_u8_keeps [where P = ?C, OF a(1) a(2)]) (use Cput in auto)
      qed
      show ?thesis
        by (rule for_u8_establishes [where P = ?C, OF s' r(1) r(2) est keep])
    qed
    have other: "bit (load (mem s') p) k = bit (load (mem s) p) k"
      if hyp: "\<forall>x y. rect_pixel True x_from y_from x_to y_to x y \<longrightarrow>
                 \<not> (pixel_cell (oled s) x y = p \<and> unat (y AND 7) = k)" for p k
    proof -
      let ?O = "\<lambda>t. oled t = oled s \<and> bit (load (mem t) p) k = bit (load (mem s) p) k"
      have "?O s'"
      proof (rule for_u8_keeps_in [where P = ?O, OF s'], simp, intro allI impI)
        fix x t t'
        assume rx: "unat ?sx \<le> unat x \<and> unat x \<le> unat ?ex" and a: "?inner x t = Some t'" "?O t"
        show "?O t'"
        proof (rule for_u8_keeps_in [where P = ?O, OF a(1) a(2)], intro allI impI)
          fix y u u'
          assume ry: "unat ?sy \<le> unat y \<and> unat y \<le> unat ?ey"
            and b: "Some (OLED_put_pixel_inl x y ?c u) = Some u'" "?O u"
          from rx ry have "rect_pixel True x_from y_from x_to y_to x y"
            unfolding rp by simp
          with hyp have "\<not> (pixel_cell (oled s) x y = p \<and> unat (y AND 7) = k)" by blast
          from Oput [OF b(2) this] b(1) show "?O u'" by auto
        qed
      qed
      then show ?thesis by simp
    qed
    from R s' frame colour other True show ?thesis by simp
  next
    case False
    let ?b1 = "\<lambda>x s. Some (OLED_put_pixel_inl x ?ey ?c (OLED_put_pixel_inl x ?sy ?c s))"
    let ?b2 = "\<lambda>y s. Some (OLED_put_pixel_inl ?ex y ?c (OLED_put_pixel_inl ?sx y ?c s))"
    have R: "OLED_put_rectangle e x_from y_from x_to y_to params s
               = (case for_u8 ?sx (unat ?ex) ?b1 s of
                    None \<Rightarrow> None
                  | Some s1 \<Rightarrow> map_option (Pair OLED_EOK) (for_u8 ?sy (unat ?ey) ?b2 s1))"
      using valid xf xt yf yt False
      by (simp add: OLED_put_rectangle_def limit_def Let_def u8_count split del: if_split)
    have b1_some: "\<forall>x t. \<exists>t'. ?b1 x t = Some t'" by simp
    have b2_some: "\<forall>x t. \<exists>t'. ?b2 x t = Some t'" by simp
    from for_u8_Some [OF bx b1_some] obtain s1 where s1: "for_u8 ?sx (unat ?ex) ?b1 s = Some s1"
      by blast
    from for_u8_Some [OF "by" b2_some] obtain s' where s': "for_u8 ?sy (unat ?ey) ?b2 s1 = Some s'"
      by blast
    have "?I s1"
      by (rule for_u8_keeps [where P = ?I, OF s1 I0]) (use Iput in auto)
    then have frame: "?I s'"
      by (rule for_u8_keeps [where P = ?I, OF s']) (use Iput in auto)
    have colour: "pixel_bit s' x y = ?c" if m: "rect_pixel False x_from y_from x_to y_to x y" for x y
    proof -
      let ?C = "\<lambda>t. pixel_bit t x y = ?c"
      from m have r: "unat ?sx \<le> unat x" "unat x \<le> unat ?ex" "unat ?sy \<le> unat y" "unat y \<le> unat ?ey"
        and edge: "x = ?sx \<or> x = ?ex \<or> y = ?sy \<or> y = ?ey"
        unfolding rp by simp_all
      have k1: "\<forall>x' t t'. ?b1 x' t = Some t' \<longrightarrow> ?C t \<longrightarrow> ?C t'" using Cput by auto
      have k2: "\<forall>y' t t'. ?b2 y' t = Some t' \<longrightarrow> ?C t \<longrightarrow> ?C t'" using Cput by auto
      from edge consider (h) "y = ?sy \<or> y = ?ey" | (v) "x = ?sx \<or> x = ?ex" by blast
      then show ?thesis
      proof cases
        case h
        have est: "\<forall>t t'. ?b1 x t = Some t' \<longrightarrow> ?C t'"
          using h put_pixel_sets Cput by auto
        have "?C s1"
          by (rule for_u8_establishes [where P = ?C, OF s1 r(1) r(2) est k1])
        then show ?thesis
          by (rule for_u8_keeps [where P = ?C, OF s' _ k2])
      next
        case v
        have est: "\<forall>t t'. ?b2 y t = Some t' \<longrightarrow> ?C t'"
          using v put_pixel_sets Cput by auto
        show ?thesis
          by (rule for_u8_establishes [where P = ?C, OF s' r(3) r(4) est k2])
      qed
    qed
    have other: "bit (load (mem s') p) k = bit (load (mem s) p) k"
      if hyp: "\<forall>x y. rect_pixel False x_from y_from x_to y_to x y \<longrightarrow>
                 \<not> (pixel_cell (oled s) x y = p \<and> unat (y AND 7) = k)" for p k
    proof -
      let ?O = "\<lambda>t. oled t = oled s \<and> bit (load (mem t) p) k = bit (load (mem s) p) k"
      have lx: "unat ?sx \<le> unat ?ex" by (auto simp add: word_less_nat_alt)
      have ly: "unat ?sy \<le> unat ?ey" by (auto simp add: word_less_nat_alt)
      have "?O s1"
      proof (rule for_u8_keeps_in [where P = ?O, OF s1], simp, intro allI impI)
        fix x t t'
        assume rx: "unat ?sx \<le> unat x \<and> unat x \<le> unat ?ex" and a: "?b1 x t = Some t'" "?O t"
        from rx ly have "rect_pixel False x_from y_from x_to y_to x ?sy"
          "rect_pixel False x_from y_from x_to y_to x ?ey"
          unfolding rp by simp_all
        with hyp have n: "\<not> (pixel_cell (oled s) x ?sy = p \<and> unat (?sy AND 7) = k)"
          "\<not> (pixel_cell (oled s) x ?ey = p \<and> unat (?ey AND 7) = k)"
          by blast+
        from Oput [OF Oput [OF a(2) n(1)] n(2)] a(1) show "?O t'" by auto
      qed
      have "?O s'"
      proof (rule for_u8_keeps_in [where P = ?O, OF s' \<open>?O s1\<close>], intro allI impI)
        fix y t t'
        assume ry: "unat ?sy \<le> unat y \<and> unat y \<le> unat ?ey" and a: "?b2 y t = Some t'" "?O t"
        from ry lx have "rect_pixel False x_from y_from x_to y_to ?sx y"
          "rect_pixel False x_from y_from x_to y_to ?ex y"
          unfolding rp by simp_all
        with hyp have n: "\<not> (pixel_cell (oled s) ?sx y = p \<and> unat (y AND 7) = k)"
          "\<not> (pixel_cell (oled s) ?ex y = p \<and> unat (y AND 7) = k)"
          by blast+
        from Oput [OF Oput [OF a(2) n(1)] n(2)] a(1) show "?O t'" by auto
      qed
      then show ?thesis by simp
    qed
    from R s1 s' frame colour other False show ?thesis by simp
  qed
qed

text \<open>
  Claim C10, as amended. On a display with at least one column and one row, with flags
  inside the defined set: \<open>OLED_put_rectangle\<close> returns Bounds only when all four
  coordinates are out of range (\<open>x \<ge> width\<close>, \<open>y \<ge> height\<close>), and then it does
  and changes nothing. Otherwise, so also when one, two or three coordinates are out of
  range, each offending coordinate is replaced by \<open>width - 1\<close> or \<open>height - 1\<close>, the
  rectangle with the clamped corners is drawn, and Ok is returned: every pixel of that
  rectangle (of its outline, when it is not filled) has the requested colour, every
  other bit of memory is as before, and nothing but memory has changed.
\<close>

theorem rectangle_clamps:
  assumes valid: "\<not> params > (OLED_BLACK e OR OLED_FILL e)"
    and w: "width (oled s) \<noteq> 0" and h: "height (oled s) \<noteq> 0"
  shows "(x_from \<ge> width (oled s) \<and> x_to \<ge> width (oled s) \<and>
          y_from \<ge> height (oled s) \<and> y_to \<ge> height (oled s) \<longrightarrow>
            OLED_put_rectangle e x_from y_from x_to y_to params s = Some (OLED_EBOUNDS, s)) \<and>
         ((\<exists>s'. OLED_put_rectangle e x_from y_from x_to y_to params s = Some (OLED_EBOUNDS, s')) \<longrightarrow>
            x_from \<ge> width (oled s) \<and> x_to \<ge> width (oled s) \<and>
            y_from \<ge> height (oled s) \<and> y_to \<ge> height (oled s)) \<and>
         (\<not> (x_from \<ge> width (oled s) \<and> x_to \<ge> width (oled s) \<and>
             y_from \<ge> height (oled s) \<and> y_to \<ge> height (oled s)) \<longrightarrow>
            (\<exists>s'. OLED_put_rectangle e x_from y_from x_to y_to params s = Some (OLED_EOK, s') \<and>
                  OLED_put_rectangle e x_from y_from x_to y_to params s =
                    OLED_put_rectangle e
                      (clamp x_from (width (oled s))) (clamp y_from (height (oled s)))
                      (clamp x_to (width (oled s))) (clamp y_to (height (oled s))) params s \<and>
                  s'\<lparr>mem := mem s\<rparr> = s \<and>
                  (\<forall>x y. rect_pixel (OLED_FILL e AND params \<noteq> 0)
                           (clamp x_from (width (oled s))) (clamp y_from (height (oled s)))
                           (clamp x_to (width (oled s))) (clamp y_to (height (oled s))) x y \<longrightarrow>
                         pixel_bit s' x y = (OLED_BLACK e AND params \<noteq> 0)) \<and>
                  (\<forall>p k. (\<forall>x y. rect_pixel (OLED_FILL e AND params \<noteq> 0)
                                  (clamp x_from (width (oled s))) (clamp y_from (height (oled s)))
                                  (clamp x_to (width (oled s))) (clamp y_to (height (oled s))) x y \<longrightarrow>
                                \<not> (pixel_cell (oled s) x y = p \<and> unat (y AND 7) = k)) \<longrightarrow>
                         bit (load (mem s') p) k = bit (load (mem s) p) k)))"
proof -
  let ?W = "width (oled s)" and ?H = "height (oled s)"
  let ?all = "x_from \<ge> ?W \<and> x_to \<ge> ?W \<and> y_from \<ge> ?H \<and> y_to \<ge> ?H"
  let ?cxf = "clamp x_from ?W" and ?cyf = "clamp y_from ?H"
  let ?cxt = "clamp x_to ?W" and ?cyt = "clamp y_to ?H"
  let ?R = "OLED_put_rectangle e x_from y_from x_to y_to params s"
  note gw = gt_pred_iff [OF w] and gh = gt_pred_iff [OF h]
  have R: "?R = (if ?all then Some (OLED_EBOUNDS, s)
                 else OLED_put_rectangle e ?cxf ?cyf ?cxt ?cyt params s)"
    using rect_clamped [OF valid, where x_from = x_from and s = s and x_to = x_to
        and y_from = y_from and y_to = y_to]
    unfolding gw gh clamp_def .
  have in_x: "\<not> ?cxf > ?W - 1" "\<not> ?cxt > ?W - 1"
    unfolding gw clamp_def using pred_less [OF w] by (simp_all add: not_le)
  have in_y: "\<not> ?cyf > ?H - 1" "\<not> ?cyt > ?H - 1"
    unfolding gh clamp_def using pred_less [OF h] by (simp_all add: not_le)
  from rect_draws [OF valid w h in_x(1) in_x(2) in_y(1) in_y(2)]
  obtain s' where s': "OLED_put_rectangle e ?cxf ?cyf ?cxt ?cyt params s = Some (OLED_EOK, s')"
    "s'\<lparr>mem := mem s\<rparr> = s"
    "\<forall>x y. rect_pixel (OLED_FILL e AND params \<noteq> 0) ?cxf ?cyf ?cxt ?cyt x y \<longrightarrow>
           pixel_bit s' x y = (OLED_BLACK e AND params \<noteq> 0)"
    "\<forall>p k. (\<forall>x y. rect_pixel (OLED_FILL e AND params \<noteq> 0) ?cxf ?cyf ?cxt ?cyt x y \<longrightarrow>
                  \<not> (pixel_cell (oled s) x y = p \<and> unat (y AND 7) = k)) \<longrightarrow>
           bit (load (mem s') p) k = bit (load (mem s) p) k"
    by blast
  have a: "?all \<Longrightarrow> ?R = Some (OLED_EBOUNDS, s)"
    using R by simp
  have b: "\<not> ?all \<Longrightarrow> ?R = Some (OLED_EOK, s') \<and> ?R = OLED_put_rectangle e ?cxf ?cyf ?cxt ?cyt params s"
    using R s'(1) by simp
  have c1: "?all \<longrightarrow> ?R = Some (OLED_EBOUNDS, s)"
    using a by blast
  have c2: "(\<exists>t. ?R = Some (OLED_EBOUNDS, t)) \<longrightarrow> ?all"
    using b by (cases ?all) auto
  have c3: "\<not> ?all \<longrightarrow>
         (\<exists>s'. ?R = Some (OLED_EOK, s') \<and>
            ?R = OLED_put_rectangle e ?cxf ?cyf ?cxt ?cyt params s \<and>
            s'\<lparr>mem := mem s\<rparr> = s \<and>
            (\<forall>x y. rect_pixel (OLED_FILL e AND params \<noteq> 0) ?cxf ?cyf ?cxt ?cyt x y \<longrightarrow>
                   pixel_bit s' x y = (OLED_BLACK e AND params \<noteq> 0)) \<and>
            (\<forall>p k. (\<forall>x y. rect_pixel (OLED_FILL e AND params \<noteq> 0) ?cxf ?cyf ?cxt ?cyt x y \<longrightarrow>
                          \<not> (pixel_cell (oled s) x y = p \<and> unat (y AND 7) = k)) \<longrightarrow>
                   bit (load (mem s') p) k = bit (load (mem s) p) k))"
    using b s'(2,3,4) by blast
  from c1 c2 c3 show ?thesis by (intro conjI)
qed

theorem rectangle_clamps_witness:
  "\<not> (3 :: u16) > (OLED_BLACK enum_1_2 OR OLED_FILL enum_1_2) \<and>
   width (oled ready) \<noteq> 0 \<and> height (oled ready) \<noteq> 0 \<and>
   OLED_put_rectangle enum_1_2 200 200 200 200 3 ready = Some (OLED_EBOUNDS, ready) \<and>
   map_option fst (OLED_put_rectangle enum_1_2 0 0 200 200 3 ready) = Some OLED_EOK \<and>
   OLED_put_rectangle enum_1_2 0 0 200 200 3 ready = OLED_put_rectangle enum_1_2 0 0 1 63 3 ready \<and>
   map_option (\<lambda>r. (pixel_bit (snd r) 0 0, pixel_bit (snd r) 1 63, pixel_bit (snd r) 1 30))
     (OLED_put_rectangle enum_1_2 0 0 200 200 3 ready) = Some (True, True, True)"
proof -
  have v: "\<not> (3 :: u16) > (OLED_BLACK enum_1_2 OR OLED_FILL enum_1_2)"
    by (simp add: enum_1_2_def)
  have w: "width (oled ready) \<noteq> 0" and h: "height (oled ready) \<noteq> 0"
    by (simp_all add: ready_facts)
  have c: "(OLED_BLACK enum_1_2 AND (3 :: u16) \<noteq> 0) = True"
    "(OLED_FILL enum_1_2 AND (3 :: u16) \<noteq> 0) = True"
    by (simp_all add: enum_1_2_def)
  have cl: "clamp 0 (width (oled ready)) = 0" "clamp 0 (height (oled ready)) = 0"
    "clamp 200 (width (oled ready)) = 1" "clamp 200 (height (oled ready)) = 63"
    by (simp_all add: clamp_def ready_facts)
  have m: "rect_pixel True 0 0 1 63 0 0" "rect_pixel True 0 0 1 63 1 63" "rect_pixel True 0 0 1 63 1 30"
    by (simp_all add: rect_pixel_def)
  from rectangle_clamps [OF v w h, where x_from = 200 and y_from = 200 and x_to = 200 and y_to = 200]
  have a: "OLED_put_rectangle enum_1_2 200 200 200 200 3 ready = Some (OLED_EBOUNDS, ready)"
    by (simp add: ready_facts)
  have n: "\<not> ((0 :: u8) \<ge> width (oled ready) \<and> (200 :: u8) \<ge> width (oled ready) \<and>
              (0 :: u8) \<ge> height (oled ready) \<and> (200 :: u8) \<ge> height (oled ready))"
    by (simp add: ready_facts)
  from rectangle_clamps [OF v w h, where x_from = 0 and y_from = 0 and x_to = 200 and y_to = 200,
      unfolded c cl] n
  obtain s' where b: "OLED_put_rectangle enum_1_2 0 0 200 200 3 ready = Some (OLED_EOK, s')"
    "OLED_put_rectangle enum_1_2 0 0 200 200 3 ready = OLED_put_rectangle enum_1_2 0 0 1 63 3 ready"
    "\<forall>x y. rect_pixel True 0 0 1 63 x y \<longrightarrow> pixel_bit s' x y = True"
    by blast
  from b(3) m have "pixel_bit s' 0 0" "pixel_bit s' 1 63" "pixel_bit s' 1 30" by blast+
  with v w h a b(1,2) show ?thesis by simp
qed

text \<open>
  Claim C10 as stated fails on a display without columns or without rows, which
  \<open>__OLED_init\<close> accepts: the limit \<open>width - 1\<close> is then 255, no x coordinate is
  limited, and with one coordinate out of range and a corner at 255 the loop
  \<open>for (uint8_t x = ...; x <= 255; x++)\<close> never ends, so Ok is not returned. And it
  fails for flags outside the defined set, where InvalidParameter is returned whatever
  the coordinates are.
\<close>

theorem rectangle_clamps_counterexample:
  "map_option fst (OLED_init 16000000 0 10 (Ptr (CALLER 0) 0) 200000 0x3C boot) = Some OLED_EOK \<and>
   Option.bind (OLED_init 16000000 0 10 (Ptr (CALLER 0) 0) 200000 0x3C boot)
     (\<lambda>r. OLED_put_rectangle enum_1_2 0 0 255 200 3 (snd r)) = None \<and>
   map_option fst (OLED_init 16000000 10 0 (Ptr (CALLER 0) 0) 200000 0x3C boot) = Some OLED_EOK \<and>
   Option.bind (OLED_init 16000000 10 0 (Ptr (CALLER 0) 0) 200000 0x3C boot)
     (\<lambda>r. OLED_put_rectangle enum_1_2 0 0 200 255 3 (snd r)) = None \<and>
   OLED_put_rectangle enum_1_2 0 0 200 200 4 ready = Some (OLED_EPARAMS, ready)"
proof -
  have i1: "\<exists>s. OLED_init 16000000 0 10 (Ptr (CALLER 0) 0) 200000 0x3C boot = Some (OLED_EOK, s) \<and>
               width (oled s) = 0 \<and> height (oled s) = 10"
    using init_ok [of 200000 16000000 0 10 "Ptr (CALLER 0) 0" "0x3C" boot] by auto
  have i2: "\<exists>s. OLED_init 16000000 10 0 (Ptr (CALLER 0) 0) 200000 0x3C boot = Some (OLED_EOK, s) \<and>
               width (oled s) = 10 \<and> height (oled s) = 0"
    using init_ok [of 200000 16000000 10 0 "Ptr (CALLER 0) 0" "0x3C" boot] by auto
  have l: "for_u8 x 255 body t = None" for x body t
  proof -
    have "unat x < 256" using unsigned_less [of x] by simp
    then have "unat x \<le> 255" by simp
    then show ?thesis by (subst for_u8.simps) simp
  qed
  have r1: "OLED_put_rectangle enum_1_2 0 0 255 200 3 s = None"
    if "width (oled s) = 0" "height (oled s) = 10" for s
    using that by (simp add: OLED_put_rectangle_def limit_def Let_def enum_1_2_def u8_count l)
  have r2: "OLED_put_rectangle enum_1_2 0 0 200 255 3 s = None"
    if "width (oled s) = 10" "height (oled s) = 0" for s
  proof -
    have "for_u8 0 9 (\<lambda>x. for_u8 0 255 (\<lambda>y s. Some (OLED_put_pixel_inl x y True s))) s = None"
      by (subst for_u8.simps) (simp add: l)
    with that show ?thesis
      by (simp add: OLED_put_rectangle_def limit_def Let_def enum_1_2_def u8_count)
  qed
  have p: "OLED_put_rectangle enum_1_2 0 0 200 200 4 ready = Some (OLED_EPARAMS, ready)"
    by (simp add: OLED_put_rectangle_def enum_1_2_def)
  from i1 i2 r1 r2 p show ?thesis by auto
qed

end
